theory Spec2Isabelle
  imports Complex_Main
begin

section \<open>Data model of \<open>src/pineNode.js\<close>\<close>

text \<open>
  JavaScript numbers are modelled by their mathematical values: the scaling
  factors, requested resolutions and buffering ratios are \<open>real\<close>; coordinates,
  node resolutions (always the result of \<open>parseInt (Math.floor \<dots>)\<close>) and the
  reverse depth are \<open>int\<close>.  Rounding error of IEEE doubles, \<open>NaN\<close> and
  \<open>Infinity\<close> are not modelled.  A thrown exception is a value \<open>Inl e\<close>.
\<close>

datatype jsError = Error string | TypeError string

record 's chromRegion =
  cr_start :: int
  cr_end :: int
  cr_resolution :: "real option"
  cr_data :: "'s option"

text \<open>
  \<open>updateSummary\<close> receives either a region (a data entry that may carry a
  summary in \<open>cr_data\<close>) or, at line 376 of the source, a bare summary object
  \<open>new this.tree._SummaryCtor()\<close>.
\<close>

datatype 's chromEntry = Region "'s chromRegion" | SummaryObject 's

text \<open>
  The pluggable summary type \<open>tree._SummaryCtor\<close>.  Its operations are a
  parameter of the model.  \<open>extractFrom\<close> (the static \<open>extract\<close>) gives
  \<open>Some s\<close> exactly when the source's
  \<open>newSummary instanceof this.tree._SummaryCtor\<close> holds.  \<open>addSummary\<close> and
  \<open>addDataFromChromEntry\<close> receive the node (here its range), the
  accumulator and the child's summary (\<open>None\<close>: \<open>undefined\<close>) or the raw
  entry.
\<close>

record 's summaryCtor =
  newSummary :: 's
  extractFrom :: "'s chromEntry \<Rightarrow> 's option"
  addSummary :: "int \<times> int \<Rightarrow> 's \<Rightarrow> 's option \<Rightarrow> 's"
  addDataFromChromEntry :: "int \<times> int \<Rightarrow> 's \<Rightarrow> 's chromRegion \<Rightarrow> 's"
  attach :: "'s \<Rightarrow> 's chromRegion \<Rightarrow> 's chromRegion"

text \<open>
  \<open>this.tree\<close>: \<open>SummaryCtor = None\<close> when \<open>tree._SummaryCtor\<close> is not a
  function.
\<close>

record 's pineTree =
  scalingFactor :: real
  leafScalingFactor :: real
  SummaryCtor :: "'s summaryCtor option"

text \<open>
  Modelled from the spec: the leaf node type (\<open>DataNode\<close>, outside this
  repository) holds the raw intervals that start at its coordinate and a
  carry-over list of intervals that started earlier and extend into it.
\<close>

record 's dataNode =
  dn_start :: int
  dn_startList :: "'s chromRegion list"
  dn_continuedList :: "'s chromRegion list"

text \<open>
  A bucket of \<open>this.values\<close>: \<open>null\<close> is \<open>Unknown\<close>, \<open>false\<close> is
  \<open>KnownEmpty\<close>.  A node carries \<open>isRoot\<close>, \<open>start\<close>, \<open>end\<close>,
  \<open>reverseDepth\<close>, \<open>keys\<close>, \<open>values\<close>, \<open>_summary\<close> and
  \<open>_summaryChromRegion\<close>.
\<close>

datatype 's bucket = Unknown | KnownEmpty | Branch "'s pineNode" | Leaf "'s dataNode"
and 's pineNode =
  PineNode (isRoot: bool) (nstart: int) (nend: int) (reverseDepth: int)
    (keys: "int list") (vals: "'s bucket list") (summary: "'s option")
    (summaryChromRegion: "'s chromEntry option")

definition setSummary ::
  "'s pineNode \<Rightarrow> 's option \<Rightarrow> 's chromEntry option \<Rightarrow> 's pineNode" where
  "setSummary n s c =
     PineNode (isRoot n) (nstart n) (nend n) (reverseDepth n) (keys n) (vals n) s c"

definition setBuckets :: "'s pineNode \<Rightarrow> int list \<Rightarrow> 's bucket list \<Rightarrow> 's pineNode" where
  "setBuckets n ks vs =
     PineNode (isRoot n) (nstart n) (nend n) (reverseDepth n) ks vs (summary n)
       (summaryChromRegion n)"

text \<open>
  The constructor, lines 65--80.  Modelled from the spec: the superclass
  constructor (\<open>GiveNonLeafNode\<close>, outside this repository) sets up the bucket
  arrays; a node built from \<open>start\<close> and \<open>end\<close> alone has the keys
  \<open>[start, end]\<close> and one Unknown bucket.
\<close>

definition newPineNode :: "'s pineTree \<Rightarrow> bool \<Rightarrow> int \<Rightarrow> int \<Rightarrow> 's pineNode" where
  "newPineNode t isR s e =
     PineNode isR s e
       (if real_of_int (e - s) \<le> leafScalingFactor t then 0
        else \<lceil>(ln (real_of_int (e - s)) - ln (leafScalingFactor t)) / ln (scalingFactor t)\<rceil>)
       [s, e] [Unknown] None None"

section \<open>Resolution arithmetic\<close>

text \<open>
  \<open>parseInt\<close> is only ever applied to an integer-valued number, where it is
  the identity (below \<open>10^21\<close>).
\<close>

definition parseInt :: "int \<Rightarrow> int" where
  "parseInt x = x"

definition hasData :: "'s pineNode \<Rightarrow> bool" where
  "hasData n = (summary n \<noteq> None)"

definition getResolutionAtDepth :: "'s pineTree \<Rightarrow> int \<Rightarrow> int" where
  "getResolutionAtDepth t revDepth =
     parseInt \<lfloor>scalingFactor t powi revDepth * leafScalingFactor t\<rfloor>"

definition resolution :: "'s pineTree \<Rightarrow> 's pineNode \<Rightarrow> int" where
  "resolution t n = getResolutionAtDepth t (reverseDepth n)"

definition getClosestResolution :: "'s pineTree \<Rightarrow> real \<Rightarrow> int" where
  "getClosestResolution t requiredRes =
     (if requiredRes \<ge> leafScalingFactor t
      then parseInt \<lfloor>scalingFactor t powi
              \<lfloor>ln (requiredRes / leafScalingFactor t) / ln (scalingFactor t)\<rfloor>
            * leafScalingFactor t\<rfloor>
      else 1)"

text \<open>
  \<open>roundingFunc || Math.round\<close>; \<open>Math.round x\<close> is \<open>\<lfloor>x + 1/2\<rfloor>\<close>, which is
  \<^const>\<open>round\<close>.
\<close>

definition fitResolution :: "real \<Rightarrow> int \<Rightarrow> (real \<Rightarrow> int) option \<Rightarrow> int" where
  "fitResolution v r roundingFunc =
     parseInt ((case roundingFunc of None \<Rightarrow> round | Some f \<Rightarrow> f) (v / of_int r) * r)"

text \<open>A tree used by the concrete evaluations: the factors of Scenario A.\<close>

definition exampleSummaryCtor :: "nat summaryCtor" where
  "exampleSummaryCtor =
     \<lparr>newSummary = 0,
      extractFrom = (\<lambda>ce. case ce of Region r \<Rightarrow> cr_data r | SummaryObject s \<Rightarrow> None),
      addSummary = (\<lambda>rng acc s. acc + (case s of None \<Rightarrow> 0 | Some x \<Rightarrow> x)),
      addDataFromChromEntry = (\<lambda>rng acc e. acc + 1),
      attach = (\<lambda>s r. r\<lparr>cr_data := Some s\<rparr>)\<rparr>"

definition scenarioTree :: "nat pineTree" where
  "scenarioTree =
     \<lparr>scalingFactor = 10, leafScalingFactor = 100, SummaryCtor = Some exampleSummaryCtor\<rparr>"


section \<open>Child state and resolution tests\<close>

text \<open>
  Modelled from the spec: a leaf exposes \<open>hasData\<close> and \<open>resolution = 1\<close>
  (\<open>DataNode\<close>, outside this repository); a leaf holds its raw entries
  itself, so its data is present.
\<close>

definition leafHasData :: "'s dataNode \<Rightarrow> bool" where
  "leafHasData l = True"

definition leafResolution :: "'s dataNode \<Rightarrow> int" where
  "leafResolution l = 1"

text \<open>
  \<open>childHasData\<close>, lines 92--95, on the bucket \<open>this.values[index]\<close>; at an
  index outside the array the source reads \<open>undefined.hasData\<close> and throws.
\<close>

fun bucketHasData :: "'s bucket \<Rightarrow> bool" where
  "bucketHasData KnownEmpty = True"
| "bucketHasData Unknown = False"
| "bucketHasData (Branch c) = hasData c"
| "bucketHasData (Leaf l) = leafHasData l"

definition childHasData :: "'s pineNode \<Rightarrow> nat \<Rightarrow> jsError + bool" where
  "childHasData n index =
     (if index < length (vals n) then Inr (bucketHasData (vals n ! index))
      else Inl (TypeError ''Cannot read property hasData of undefined''))"

text \<open>
  \<open>getChildResolution\<close>, lines 128--143: \<open>bucketResolution\<close> is the case of
  an index inside the array, applied to the bucket found there.  A child's
  \<open>resolution\<close> counts only when it is truthy (non-zero).
\<close>

definition generalChildResolution :: "'s pineTree \<Rightarrow> int \<Rightarrow> int" where
  "generalChildResolution t rd = (if rd > 0 then getResolutionAtDepth t (rd - 1) else 1)"

fun bucketResolution :: "'s pineTree \<Rightarrow> int \<Rightarrow> 's bucket \<Rightarrow> int" where
  "bucketResolution t rd KnownEmpty = 1"
| "bucketResolution t rd Unknown = generalChildResolution t rd"
| "bucketResolution t rd (Branch c) =
     (if rd \<le> 0 then 1
      else if resolution t c \<noteq> 0 then resolution t c
      else generalChildResolution t rd)"
| "bucketResolution t rd (Leaf l) =
     (if rd \<le> 0 then 1
      else if leafResolution l \<noteq> 0 then leafResolution l
      else generalChildResolution t rd)"

definition getChildResolution :: "'s pineTree \<Rightarrow> 's pineNode \<Rightarrow> nat option \<Rightarrow> int" where
  "getChildResolution t n index =
     (case index of
        None \<Rightarrow> generalChildResolution t (reverseDepth n)
      | Some i \<Rightarrow>
          if i < length (vals n) then bucketResolution t (reverseDepth n) (vals n ! i)
          else if reverseDepth n \<le> 0 then 1
          else generalChildResolution t (reverseDepth n))"

definition resolutionEnough :: "'s pineTree \<Rightarrow> 's pineNode \<Rightarrow> real option \<Rightarrow> bool" where
  "resolutionEnough t n res =
     (real_of_int (resolution t n) \<le> (case res of None \<Rightarrow> 1 | Some r \<Rightarrow> r))"

definition childResolutionEnough ::
  "'s pineTree \<Rightarrow> 's pineNode \<Rightarrow> real option \<Rightarrow> nat option \<Rightarrow> bool" where
  "childResolutionEnough t n res index =
     (real_of_int (getChildResolution t n index) \<le> (case res of None \<Rightarrow> 1 | Some r \<Rightarrow> r))"

text \<open>
  \<open>a || b || 1\<close> on optional numbers: \<open>undefined\<close> and 0 are falsy.
\<close>

definition truthyNumber :: "real option \<Rightarrow> real option" where
  "truthyNumber x = (case x of None \<Rightarrow> None | Some r \<Rightarrow> if r = 0 then None else Some r)"

definition resolutionOr :: "real option \<Rightarrow> real option \<Rightarrow> real" where
  "resolutionOr a b =
     (case truthyNumber a of
        Some r \<Rightarrow> r
      | None \<Rightarrow> (case truthyNumber b of Some r \<Rightarrow> r | None \<Rightarrow> 1))"

text \<open>
  \<open>chrRange.resolution || props.resolution || 1\<close> where \<open>props\<close> may be
  \<open>undefined\<close> (the second argument is then \<open>None\<close>): \<open>props\<close> is read only
  when the range carries no resolution.
\<close>

definition requestedResolution :: "real option \<Rightarrow> real option option \<Rightarrow> jsError + real" where
  "requestedResolution rangeRes propsRes =
     (case truthyNumber rangeRes of
        Some r \<Rightarrow> Inr r
      | None \<Rightarrow>
          (case propsRes of
             None \<Rightarrow> Inl (TypeError ''Cannot read property resolution of undefined'')
           | Some pr \<Rightarrow> Inr (resolutionOr None pr)))"

section \<open>Summary refresh\<close>

text \<open>
  The callback of \<open>this.values.every\<close> in \<open>updateSummary\<close>, lines 247--264,
  folded over the buckets from the left: \<open>Inr None\<close> when \<open>every\<close> stops with
  \<open>false\<close>, \<open>Inr (Some s)\<close> with the accumulated summary otherwise.  At
  reverse depth 0 the bucket's \<open>traverse\<close> is called with a \<open>null\<close> range:
  a leaf then walks its raw entries (modelled from the spec, section 4.2: a
  present leaf contributes by folding each of its raw entries), a \<open>PineNode\<close>
  throws (line 687).
\<close>

fun summaryFromChildren ::
  "'s summaryCtor \<Rightarrow> int \<Rightarrow> int \<times> int \<Rightarrow> 's bucket list \<Rightarrow> 's \<Rightarrow> jsError + 's option" where
  "summaryFromChildren ops rd rng [] acc = Inr (Some acc)"
| "summaryFromChildren ops rd rng (b # bs) acc =
     (case b of
        KnownEmpty \<Rightarrow> summaryFromChildren ops rd rng bs acc
      | Unknown \<Rightarrow> Inr None
      | Branch c \<Rightarrow>
          if rd > 0 then
            (case summary c of
               None \<Rightarrow> Inr None
             | Some s \<Rightarrow> summaryFromChildren ops rd rng bs (addSummary ops rng acc (Some s)))
          else Inl (Error ''null is not a valid chrRegion.'')
      | Leaf l \<Rightarrow>
          if rd > 0 then summaryFromChildren ops rd rng bs (addSummary ops rng acc None)
          else summaryFromChildren ops rd rng bs
                 (foldl (addDataFromChromEntry ops rng) acc (dn_startList l)))"

text \<open>\<open>updateSummary\<close>, lines 230--280.  The node is returned updated.\<close>

definition updateSummary ::
  "'s pineTree \<Rightarrow> 's pineNode \<Rightarrow> 's chromEntry option \<Rightarrow> jsError + 's pineNode" where
  "updateSummary t n chromEntry =
     (case SummaryCtor t of
        None \<Rightarrow> Inr n
      | Some ops \<Rightarrow>
          (case (case chromEntry of None \<Rightarrow> None | Some ce \<Rightarrow> extractFrom ops ce) of
             Some newS \<Rightarrow> Inr (setSummary n (Some newS) chromEntry)
           | None \<Rightarrow>
               if summary n \<noteq> None then Inr n
               else
                 (case summaryFromChildren ops (reverseDepth n) (nstart n, nend n) (vals n)
                         (newSummary ops) of
                    Inl e \<Rightarrow> Inl e
                  | Inr None \<Rightarrow> Inr (setSummary n None None)
                  | Inr (Some newS) \<Rightarrow>
                      Inr (setSummary n (Some newS)
                             (Some (Region (attach ops newS
                                \<lparr>cr_start = nstart n, cr_end = nend n,
                                 cr_resolution = None, cr_data = None\<rparr>)))))))"

section \<open>Traversal\<close>

record traverseProps =
  tp_resolution :: "real option"
  tp_notFirstCall :: bool

text \<open>
  Modelled from the spec: \<open>_callFuncOnDataEntry\<close> (a static of the tree
  shell, outside this repository) invokes the callback on the entry through
  the filter and honours \<open>breakOnFalse\<close>: the walk goes on unless the callback
  returns false and \<open>breakOnFalse\<close> is set.  The callback's effect is an
  accumulator it updates.
\<close>

definition callFuncOnDataEntry ::
  "('e \<Rightarrow> 'a \<Rightarrow> bool \<times> 'a) option \<Rightarrow> ('e \<Rightarrow> bool) option \<Rightarrow> bool \<Rightarrow> 'e \<Rightarrow> 'a
     \<Rightarrow> bool \<times> 'a" where
  "callFuncOnDataEntry callback filt breakOnFalse entry acc =
     (case callback of
        None \<Rightarrow> (True, acc)
      | Some f \<Rightarrow>
          if (case filt of None \<Rightarrow> True | Some p \<Rightarrow> p entry)
          then (let (r, acc') = f entry acc in (r \<or> \<not> breakOnFalse, acc'))
          else (True, acc))"

text \<open>
  Modelled from the spec: the leaf's traverse-compatible raw-entry walk
  (\<open>DataNode\<close>, outside this repository).  The carry-over list is walked
  only on the first call of a series, then the raw entries; the walk stops
  when an entry's call returns false.
\<close>

fun walkEntries ::
  "('s chromEntry option \<Rightarrow> 'a \<Rightarrow> bool \<times> 'a) option \<Rightarrow> ('s chromEntry option \<Rightarrow> bool) option
     \<Rightarrow> bool \<Rightarrow> 's chromRegion list \<Rightarrow> 'a \<Rightarrow> bool \<times> 'a" where
  "walkEntries callback filt breakOnFalse [] acc = (True, acc)"
| "walkEntries callback filt breakOnFalse (e # es) acc =
     (case callFuncOnDataEntry callback filt breakOnFalse (Some (Region e)) acc of
        (True, acc') \<Rightarrow> walkEntries callback filt breakOnFalse es acc'
      | (False, acc') \<Rightarrow> (False, acc'))"

definition leafTraverse ::
  "'s dataNode \<Rightarrow> ('s chromEntry option \<Rightarrow> 'a \<Rightarrow> bool \<times> 'a) option
     \<Rightarrow> ('s chromEntry option \<Rightarrow> bool) option \<Rightarrow> bool \<Rightarrow> traverseProps option \<Rightarrow> 'a
     \<Rightarrow> jsError + (bool option \<times> traverseProps option \<times> 'a)" where
  "leafTraverse l callback filt breakOnFalse props acc =
     (case props of
        None \<Rightarrow> Inl (TypeError ''Cannot read property notFirstCall of undefined'')
      | Some p \<Rightarrow>
          (case (if tp_notFirstCall p then (True, acc)
                 else walkEntries callback filt breakOnFalse (dn_continuedList l) acc) of
             (False, acc1) \<Rightarrow> Inr (Some False, Some p, acc1)
           | (True, acc1) \<Rightarrow>
               (case walkEntries callback filt breakOnFalse (dn_startList l) acc1 of
                  (False, acc2) \<Rightarrow> Inr (Some False, Some p, acc2)
                | (True, acc2) \<Rightarrow> Inr (Some True, Some (p\<lparr>tp_notFirstCall := True\<rparr>), acc2))))"

text \<open>
  The cursor \<open>currIndex\<close> of the bucket loops is represented by the suffixes
  of \<open>keys\<close> and \<open>values\<close> from that index on; a key read past the end of
  the array is \<open>undefined\<close>, and every comparison with it is false.
  \<open>skipKeys\<close> is \<open>while (this.keys[currIndex + 1] <= start) currIndex++\<close>.
\<close>

fun skipKeys :: "int \<Rightarrow> int list \<Rightarrow> 'b list \<Rightarrow> int list \<times> 'b list" where
  "skipKeys cs (k0 # k1 # ks) vs =
     (if k1 \<le> cs then skipKeys cs (k1 # ks) (tl vs) else (k0 # k1 # ks, vs))"
| "skipKeys cs ks vs = (ks, vs)"

text \<open>
  \<open>traverse\<close>, lines 667--689.  The result is the returned value
  (\<open>None\<close>: \<open>undefined\<close>), the props and the callback's accumulator.
  \<open>superTraverse\<close> is modelled from the spec: the tree shell's generic
  per-bucket depth-first walk (\<open>GiveNonLeafNode.prototype.traverse\<close>, outside
  this repository) visits, in order, the present children of the buckets
  that intersect the range, and stops with false when a child's walk does
  not return true.
\<close>

function (sequential) traverse ::
  "'s pineTree \<Rightarrow> 's pineNode \<Rightarrow> 's chromRegion option
     \<Rightarrow> ('s chromEntry option \<Rightarrow> 'a \<Rightarrow> bool \<times> 'a) option
     \<Rightarrow> ('s chromEntry option \<Rightarrow> bool) option \<Rightarrow> bool \<Rightarrow> traverseProps option \<Rightarrow> 'a
     \<Rightarrow> jsError + (bool option \<times> traverseProps option \<times> 'a)"
and superTraverse ::
  "'s pineTree \<Rightarrow> 's chromRegion
     \<Rightarrow> ('s chromEntry option \<Rightarrow> 'a \<Rightarrow> bool \<times> 'a) option
     \<Rightarrow> ('s chromEntry option \<Rightarrow> bool) option \<Rightarrow> bool \<Rightarrow> int list \<Rightarrow> 's bucket list
     \<Rightarrow> traverseProps option \<Rightarrow> 'a
     \<Rightarrow> jsError + (bool option \<times> traverseProps option \<times> 'a)" where
  "traverse t (PineNode ir s e rd ks vs sm scr) chrRange callback filt breakOnFalse props acc =
     (case chrRange of
        None \<Rightarrow> Inl (Error ''undefined is not a valid chrRegion.'')
      | Some cr \<Rightarrow>
          (case requestedResolution (cr_resolution cr) (map_option tp_resolution props) of
             Inl err \<Rightarrow> Inl err
           | Inr res \<Rightarrow>
               if s < cr_end cr \<and> e > cr_start cr then
                 if resolutionEnough t (PineNode ir s e rd ks vs sm scr) (Some res)
                    \<and> hasData (PineNode ir s e rd ks vs sm scr)
                 then
                   (case callFuncOnDataEntry callback filt breakOnFalse scr acc of
                      (r, acc') \<Rightarrow> Inr (Some r, props, acc'))
                 else
                   (case skipKeys (cr_start cr) ks vs of
                      (ks', vs') \<Rightarrow>
                        superTraverse t cr callback filt breakOnFalse ks' vs' props acc)
               else Inr (None, props, acc)))"
| "superTraverse t cr callback filt breakOnFalse (k0 # ks) (b # bs) props acc =
     (if k0 < cr_end cr then
        (case b of
           Branch c \<Rightarrow>
             (case traverse t c (Some cr) callback filt breakOnFalse props acc of
                Inl err \<Rightarrow> Inl err
              | Inr (r, props', acc') \<Rightarrow>
                  if r = Some True
                  then superTraverse t cr callback filt breakOnFalse ks bs props' acc'
                  else Inr (Some False, props', acc'))
         | Leaf l \<Rightarrow>
             (case leafTraverse l callback filt breakOnFalse props acc of
                Inl err \<Rightarrow> Inl err
              | Inr (r, props', acc') \<Rightarrow>
                  if r = Some True
                  then superTraverse t cr callback filt breakOnFalse ks bs props' acc'
                  else Inr (Some False, props', acc'))
         | _ \<Rightarrow> superTraverse t cr callback filt breakOnFalse ks bs props acc)
      else Inr (Some True, props, acc))"
| "superTraverse t cr callback filt breakOnFalse [] bs props acc = Inr (Some True, props, acc)"
| "superTraverse t cr callback filt breakOnFalse ks [] props acc = Inr (Some True, props, acc)"
  by pat_completeness auto

lemma skipKeys_size: "size_list f (snd (skipKeys cs ks vs)) \<le> size_list f vs"
proof (induction cs ks vs rule: skipKeys.induct)
  case (1 cs k0 k1 ks vs)
  have "size_list f (tl vs) \<le> size_list f vs" by (cases vs) auto
  with 1 show ?case by auto
qed auto

termination traverse
  apply (relation "measure (\<lambda>x. case x of
            Inl (t, n, r) \<Rightarrow> size n
          | Inr (t, cr, cb, fl, bof, ks, bs, r) \<Rightarrow> size_list size bs)")
     apply simp
  apply simp_all
  subgoal premises prems for t ir s e rd ks vs sm scr chrRange props x2 b x y
  proof -
    have "size_list size (snd (skipKeys (cr_start x2) ks vs)) \<le> size_list size vs"
      by (rule skipKeys_size)
    moreover have "snd (skipKeys (cr_start x2) ks vs) = y"
      using prems by (metis snd_conv)
    ultimately show ?thesis by simp
  qed
  done

section \<open>Uncached ranges\<close>

record 's queryProps =
  qp_resolution :: "real option"
  qp_bufferingRatio :: "real option"
  qp_result :: "'s chromRegion list option"

text \<open>
  Lines 726--733 of \<open>getUncachedRange\<close>: \<open>props._result || []\<close>,
  \<open>props.bufferingRatio || 1\<close>, and the correction of a ratio below 1, which
  logs one diagnostic.  The logger's output is the list of messages, passed
  along and returned.
\<close>

definition normaliseQueryProps ::
  "'s queryProps \<Rightarrow> string list \<Rightarrow> 's queryProps \<times> string list" where
  "normaliseQueryProps p diagnostics =
     (let result = (case qp_result p of None \<Rightarrow> [] | Some r \<Rightarrow> r);
          ratio = (case truthyNumber (qp_bufferingRatio p) of None \<Rightarrow> 1 | Some b \<Rightarrow> b)
      in if ratio < 1
         then (p\<lparr>qp_result := Some result, qp_bufferingRatio := Some 1\<rparr>,
               diagnostics @ [''Invalid bufferingRatio. Should be greater than 1. Changed to 1 instead.''])
         else (p\<lparr>qp_result := Some result, qp_bufferingRatio := Some ratio\<rparr>, diagnostics))"

definition resultOf :: "'s queryProps \<Rightarrow> 's chromRegion list" where
  "resultOf p = (case qp_result p of None \<Rightarrow> [] | Some r \<Rightarrow> r)"

definition ratioOf :: "'s queryProps \<Rightarrow> real" where
  "ratioOf p = (case qp_bufferingRatio p of None \<Rightarrow> 1 | Some b \<Rightarrow> b)"

text \<open>
  Lines 762--775: the new range extends the last entry of \<open>props._result\<close> in
  place when that entry has the same resolution and ends where the range
  starts; otherwise it is pushed.
\<close>

definition appendRange ::
  "'s chromRegion list \<Rightarrow> int \<Rightarrow> int \<Rightarrow> int \<Rightarrow> 's chromRegion list" where
  "appendRange result retrieveStart retrieveEnd closestResolution =
     (if result \<noteq> []
         \<and> cr_resolution (last result) = Some (real_of_int closestResolution)
         \<and> cr_end (last result) = retrieveStart
      then butlast result @ [(last result)\<lparr>cr_end := retrieveEnd\<rparr>]
      else result @ [\<lparr>cr_start = retrieveStart, cr_end = retrieveEnd,
                      cr_resolution = Some (real_of_int closestResolution),
                      cr_data = None\<rparr>])"

text \<open>
  \<open>while (currIndex < this.values.length && this.keys[currIndex + 1] <= start)
  currIndex++\<close>, on the suffixes of keys and values.
\<close>

fun skipBuckets :: "int \<Rightarrow> int list \<Rightarrow> 'b list \<Rightarrow> int list \<times> 'b list" where
  "skipBuckets cs (k0 # k1 # ks) (v # vs) =
     (if k1 \<le> cs then skipBuckets cs (k1 # ks) vs else (k0 # k1 # ks, v # vs))"
| "skipBuckets cs ks vs = (ks, vs)"

lemma skipBuckets_size: "size_list f (snd (skipBuckets cs ks vs)) \<le> size_list f vs"
  by (induction cs ks vs rule: skipBuckets.induct) auto

lemma skipBuckets_smaller:
  "(x, y) = skipBuckets cs ks vs \<Longrightarrow> size_list size y \<le> size_list size vs"
  using skipBuckets_size[of size cs ks vs] by (metis snd_conv)

text \<open>
  \<open>this.values[currIndex]\<close> is truthy for a child node or a leaf.
  \<open>bucketResolutionEnough\<close> is \<open>childResolutionEnough (resolution, currIndex)\<close> on
  the bucket at the cursor.
\<close>

fun bucketPresent :: "'s bucket \<Rightarrow> bool" where
  "bucketPresent (Branch c) = True"
| "bucketPresent (Leaf l) = True"
| "bucketPresent b = False"

definition bucketResolutionEnough :: "'s pineTree \<Rightarrow> int \<Rightarrow> real \<Rightarrow> 's bucket \<Rightarrow> bool" where
  "bucketResolutionEnough t rd res b = (real_of_int (bucketResolution t rd b) \<le> res)"

text \<open>
  \<open>getUncachedRange\<close>, lines 721--783, and its bucket loop.  The result is
  \<open>props\<close> as the call leaves it (the returned list is \<open>props._result\<close>) and the
  logger's messages.  A missing upper key makes the source compute
  \<open>Math.min (undefined, \<dots>)\<close>, which is \<open>NaN\<close>; the model reports it as an
  error value, since a region's coordinates are integers.  Modelled from the
  spec: a leaf reached by the recursive call (\<open>DataNode\<close>, outside this
  repository) holds its data and adds no range.
\<close>

function (sequential) getUncachedRange ::
  "'s pineTree \<Rightarrow> 's pineNode \<Rightarrow> 's chromRegion option \<Rightarrow> 's queryProps option \<Rightarrow> string list
     \<Rightarrow> jsError + ('s queryProps \<times> string list)"
and uncachedLoop ::
  "'s pineTree \<Rightarrow> int \<Rightarrow> real \<Rightarrow> 's chromRegion \<Rightarrow> int list \<Rightarrow> 's bucket list
     \<Rightarrow> 's queryProps \<Rightarrow> string list \<Rightarrow> jsError + ('s queryProps \<times> string list)" where
  "getUncachedRange t (PineNode ir s e rd ks vs sm scr) chrRange props diagnostics =
     (case chrRange of
        None \<Rightarrow> Inl (TypeError ''Cannot read property resolution of undefined'')
      | Some cr \<Rightarrow>
          (case props of
             None \<Rightarrow> Inl (TypeError ''Cannot read property _result of undefined'')
           | Some p \<Rightarrow>
               (case normaliseQueryProps p diagnostics of
                  (p', diagnostics') \<Rightarrow>
                    (case skipBuckets (cr_start cr) ks vs of
                       (ks', vs') \<Rightarrow>
                         uncachedLoop t rd (resolutionOr (cr_resolution cr) (qp_resolution p))
                           cr ks' vs' p' diagnostics'))))"
| "uncachedLoop t rd res cr (k0 # ks) (b # bs) p diagnostics =
     (if k0 < cr_end cr then
        if bucketPresent b \<and> \<not> bucketResolutionEnough t rd res b then
          (case b of
             Branch c \<Rightarrow>
               (case getUncachedRange t c (Some cr) (Some p) diagnostics of
                  Inl err \<Rightarrow> Inl err
                | Inr (p', diagnostics') \<Rightarrow> uncachedLoop t rd res cr ks bs p' diagnostics')
           | _ \<Rightarrow> uncachedLoop t rd res cr ks bs p diagnostics)
        else if \<not> bucketHasData b then
          (case ks of
             [] \<Rightarrow> Inl (Error ''NaN is not a coordinate'')
           | k1 # ks' \<Rightarrow>
               (let closestResolution = getClosestResolution t (res / ratioOf p);
                    retrieveStart = max k0
                      (fitResolution (real_of_int (cr_start cr)) closestResolution (Some floor));
                    retrieveEnd = min k1
                      (fitResolution (real_of_int (cr_end cr)) closestResolution (Some ceiling))
                in uncachedLoop t rd res cr ks bs
                     (p\<lparr>qp_result :=
                          Some (appendRange (resultOf p) retrieveStart retrieveEnd
                                  closestResolution)\<rparr>)
                     diagnostics))
        else uncachedLoop t rd res cr ks bs p diagnostics
      else Inr (p, diagnostics))"
| "uncachedLoop t rd res cr [] bs p diagnostics = Inr (p, diagnostics)"
| "uncachedLoop t rd res cr ks [] p diagnostics = Inr (p, diagnostics)"
  by pat_completeness auto

termination getUncachedRange
  apply (relation "measure (\<lambda>x. case x of
            Inl (t, n, r) \<Rightarrow> size n
          | Inr (t, rd, res, cr, ks, bs, r) \<Rightarrow> size_list size bs)")
      apply simp
     apply (auto dest: skipBuckets_smaller)
  done

text \<open>
  \<open>hasUncachedRange\<close>, lines 800--831, and its bucket loop.  Modelled from the
  spec: a leaf reached by the recursive call reports no uncached range.
\<close>

function (sequential) hasUncachedRange ::
  "'s pineTree \<Rightarrow> 's pineNode \<Rightarrow> 's chromRegion option \<Rightarrow> 's queryProps option
     \<Rightarrow> jsError + bool"
and hasUncachedLoop ::
  "'s pineTree \<Rightarrow> int \<Rightarrow> real \<Rightarrow> 's chromRegion \<Rightarrow> int list \<Rightarrow> 's bucket list
     \<Rightarrow> 's queryProps option \<Rightarrow> jsError + bool" where
  "hasUncachedRange t (PineNode ir s e rd ks vs sm scr) chrRange props =
     (case chrRange of
        None \<Rightarrow> Inl (TypeError ''Cannot read property resolution of undefined'')
      | Some cr \<Rightarrow>
          (case requestedResolution (cr_resolution cr) (map_option qp_resolution props) of
             Inl err \<Rightarrow> Inl err
           | Inr res \<Rightarrow>
               (case skipBuckets (cr_start cr) ks vs of
                  (ks', vs') \<Rightarrow> hasUncachedLoop t rd res cr ks' vs' props)))"
| "hasUncachedLoop t rd res cr (k0 # ks) (b # bs) props =
     (if k0 < cr_end cr then
        if bucketPresent b \<and> \<not> bucketResolutionEnough t rd res b then
          (case b of
             Branch c \<Rightarrow>
               (case hasUncachedRange t c (Some cr) props of
                  Inl err \<Rightarrow> Inl err
                | Inr found \<Rightarrow>
                    if found then Inr True else hasUncachedLoop t rd res cr ks bs props)
           | _ \<Rightarrow> hasUncachedLoop t rd res cr ks bs props)
        else if \<not> bucketHasData b then Inr True
        else hasUncachedLoop t rd res cr ks bs props
      else Inr False)"
| "hasUncachedLoop t rd res cr [] bs props = Inr False"
| "hasUncachedLoop t rd res cr ks [] props = Inr False"
  by pat_completeness auto

termination hasUncachedRange
  apply (relation "measure (\<lambda>x. case x of
            Inl (t, n, r) \<Rightarrow> size n
          | Inr (t, rd, res, cr, ks, bs, r) \<Rightarrow> size_list size bs)")
      apply simp
     apply (auto dest: skipBuckets_smaller)
  done

section \<open>Vocabulary of the uncached-range properties\<close>

text \<open>
  The shell's invariant on the bucket arrays (spec, section 3): the keys
  increase strictly, there is one more key than values, and a child node's
  own keys lie inside the bucket that holds it.
\<close>

fun shellInvariant :: "'s pineNode \<Rightarrow> bool"
and bucketsInvariant :: "int list \<Rightarrow> 's bucket list \<Rightarrow> bool" where
  "shellInvariant (PineNode ir s e rd ks vs sm scr) = bucketsInvariant ks vs"
| "bucketsInvariant (k0 # k1 # ks) (b # bs) =
     (k0 < k1
      \<and> (case b of
            Branch c \<Rightarrow> shellInvariant c \<and> k0 \<le> hd (keys c) \<and> last (keys c) \<le> k1
          | _ \<Rightarrow> True)
      \<and> bucketsInvariant (k1 # ks) bs)"
| "bucketsInvariant [k] [] = True"
| "bucketsInvariant ks bs = False"

text \<open>
  A list of ranges is start-ordered and disjoint when every range is
  non-empty and ends no later than each range after it starts; a coordinate
  is covered when it lies in one of the ranges.
\<close>

definition startOrderedDisjoint :: "'s chromRegion list \<Rightarrow> bool" where
  "startOrderedDisjoint rs =
     (sorted_wrt (\<lambda>a b. cr_end a \<le> cr_start b) rs \<and> list_all (\<lambda>r. cr_start r < cr_end r) rs)"

definition covers :: "'s chromRegion list \<Rightarrow> int \<Rightarrow> bool" where
  "covers rs x = list_ex (\<lambda>r. cr_start r \<le> x \<and> x < cr_end r) rs"

text \<open>The one-coordinate query \<open>[x, x + 1)\<close> at the resolution of a range.\<close>

definition pointQuery :: "'s chromRegion \<Rightarrow> int \<Rightarrow> 's chromRegion" where
  "pointQuery cr x = cr\<lparr>cr_start := x, cr_end := x + 1\<rparr>"

section \<open>Auxiliary notions of the uncached-range proofs\<close>

text \<open>
  \<open>gapNode t res n x\<close>: the bucket of \<open>n\<close> that contains the coordinate \<open>x\<close> is
  one the walk reports, at the requested resolution \<open>res\<close>.  \<open>rangesWithin\<close>:
  the ranges are start-ordered, disjoint and end at or before a bound.
  \<open>nodeOK\<close> and \<open>pointOK\<close> are the induction statements about one node.
\<close>

fun gapNode :: "'s pineTree \<Rightarrow> real \<Rightarrow> 's pineNode \<Rightarrow> int \<Rightarrow> bool"
and gapBuckets :: "'s pineTree \<Rightarrow> int \<Rightarrow> real \<Rightarrow> int list \<Rightarrow> 's bucket list \<Rightarrow> int \<Rightarrow> bool" where
  "gapNode t res (PineNode ir s e rd ks vs sm scr) x = gapBuckets t rd res ks vs x"
| "gapBuckets t rd res (k0 # k1 # ks) (b # bs) x =
     (if k0 \<le> x \<and> x < k1 then
        if bucketPresent b \<and> \<not> bucketResolutionEnough t rd res b
        then (case b of Branch c \<Rightarrow> gapNode t res c x | _ \<Rightarrow> False)
        else \<not> bucketHasData b
      else gapBuckets t rd res (k1 # ks) bs x)"
| "gapBuckets t rd res ks bs x = False"

definition rangesWithin :: "'s chromRegion list \<Rightarrow> int \<Rightarrow> bool" where
  "rangesWithin rs bound = (startOrderedDisjoint rs \<and> list_all (\<lambda>r. cr_end r \<le> bound) rs)"

definition nodeOK :: "'s pineTree \<Rightarrow> 's chromRegion \<Rightarrow> 's queryProps \<Rightarrow> 's pineNode \<Rightarrow> bool" where
  "nodeOK t cr q n =
     (shellInvariant n \<longrightarrow>
      (\<forall>p d. resolutionOr (cr_resolution cr) (qp_resolution p)
               = resolutionOr (cr_resolution cr) (qp_resolution q) \<longrightarrow>
        (\<exists>p' d' h.
           getUncachedRange t n (Some cr) (Some p) d = Inr (p', d')
           \<and> qp_resolution p' = qp_resolution p
           \<and> hasUncachedRange t n (Some cr) (Some q) = Inr h
           \<and> ((resultOf p' \<noteq> []) = (resultOf p \<noteq> [] \<or> h))
           \<and> (cr_start cr < cr_end cr \<and> rangesWithin (resultOf p) (hd (keys n)) \<longrightarrow>
                rangesWithin (resultOf p') (last (keys n))
                \<and> (\<forall>x. cr_start cr \<le> x \<and> x < cr_end cr \<longrightarrow>
                      covers (resultOf p') x
                        = (covers (resultOf p) x
                           \<or> gapNode t (resolutionOr (cr_resolution cr) (qp_resolution q)) n x))))))"

definition pointOK :: "'s pineTree \<Rightarrow> 's chromRegion \<Rightarrow> 's queryProps \<Rightarrow> 's pineNode \<Rightarrow> bool" where
  "pointOK t cr q n =
     (shellInvariant n \<longrightarrow>
      (\<forall>x. hasUncachedRange t n (Some (pointQuery cr x)) (Some q)
            = Inr (gapNode t (resolutionOr (cr_resolution cr) (qp_resolution q)) n x)))"





section \<open>The tree shell and the leaf, as insertion uses them\<close>

text \<open>
  \<open>data\<close> as \<open>insert\<close> may receive it: \<open>null\<close> or \<open>undefined\<close>, an array,
  or a truthy value that is not an array (\<open>DataOther\<close>).  The falsy values
  other than \<open>null\<close> and \<open>undefined\<close> (\<open>false\<close>, \<open>0\<close>, the empty string, \<open>NaN\<close>) pass
  the test \<open>data && !Array.isArray (data)\<close> and are not represented.
  \<open>props\<close> of \<open>insert\<close>: the continuation list (absent or an
  array), whether \<open>props.callback\<close> is a function and the entries it was
  called with so far, the resolution hint, whether \<open>props.LeafNodeCtor\<close>
  passes the check of line 516, and the cursor \<open>props.dataIndex\<close>.
\<close>

datatype 's dataArg = DataNull | DataArray "'s chromRegion list" | DataOther

record 's insertProps =
  ip_continuedList :: "'s chromRegion list option"
  ip_hasCallback :: bool
  ip_called :: "'s chromRegion list"
  ip_resolution :: "real option"
  ip_LeafNodeCtor :: bool
  ip_dataIndex :: "nat option"

definition callCallback :: "'s insertProps \<Rightarrow> 's chromRegion \<Rightarrow> 's insertProps" where
  "callCallback props e =
     (if ip_hasCallback props then props\<lparr>ip_called := ip_called props @ [e]\<rparr> else props)"

text \<open>
  Array reads by index: \<open>undefined\<close> past the end.  A write to
  \<open>this.values[i]\<close> past the end would leave holes in the array, which a
  bucket list cannot hold; the model reports it as an error value.
\<close>

definition keyAt :: "int list \<Rightarrow> nat \<Rightarrow> int option" where
  "keyAt ks i = (if i < length ks then Some (ks ! i) else None)"

definition valueAt :: "'s bucket list \<Rightarrow> nat \<Rightarrow> 's bucket option" where
  "valueAt vs i = (if i < length vs then Some (vs ! i) else None)"

definition setValue :: "'s pineNode \<Rightarrow> nat \<Rightarrow> 's bucket \<Rightarrow> jsError + 's pineNode" where
  "setValue n i v =
     (if i < length (vals n) then Inr (setBuckets n (keys n) ((vals n)[i := v]))
      else Inl (Error ''bucket index out of range''))"

definition removeAt :: "nat \<Rightarrow> 'a list \<Rightarrow> 'a list" where
  "removeAt i xs = take i xs @ drop (Suc i) xs"

text \<open>
  \<open>while (this.keys[currIndex + 1] <= start) currIndex++\<close>, by index.
\<close>

function advanceIndex :: "int list \<Rightarrow> nat \<Rightarrow> int \<Rightarrow> nat" where
  "advanceIndex ks i cs =
     (if Suc i < length ks \<and> ks ! Suc i \<le> cs then advanceIndex ks (Suc i) cs else i)"
  by pat_completeness auto

termination advanceIndex
  by (relation "measure (\<lambda>(ks, i, cs). length ks - i)") auto

declare advanceIndex.simps [simp del]

text \<open>
  Modelled from the spec: the interval value's clipping, as
  \<open>truncateChrRange (chrRange, true, true)\<close> of the tree shell (outside this
  repository) applies it: a copy of the range clipped to the node.
\<close>

definition truncateChrRange :: "'s pineNode \<Rightarrow> 's chromRegion \<Rightarrow> 's chromRegion" where
  "truncateChrRange n cr =
     cr\<lparr>cr_start := max (cr_start cr) (nstart n), cr_end := min (cr_end cr) (nend n)\<rparr>"

text \<open>
  Modelled from the spec: \<open>splitChildAt (index, coordinate, fillValue?)\<close> of the
  tree shell (\<open>_splitChild\<close>, outside this repository) subdivides bucket
  \<open>index\<close> at the coordinate; the payload is preserved on both halves, unless
  a fill value is given for the latter half.
\<close>

definition splitChild ::
  "'s pineNode \<Rightarrow> nat \<Rightarrow> int \<Rightarrow> 's bucket option \<Rightarrow> jsError + 's pineNode" where
  "splitChild n index newKey fill =
     (if index < length (vals n) \<and> index < length (keys n) then
        Inr (setBuckets n
               (take (Suc index) (keys n) @ newKey # drop (Suc index) (keys n))
               (take (Suc index) (vals n)
                  @ (case fill of None \<Rightarrow> vals n ! index | Some v \<Rightarrow> v)
                  # drop (Suc index) (vals n)))
      else Inl (Error ''bucket index out of range''))"

text \<open>
  Modelled from the spec: \<open>mergeChild (index, forward, force)\<close> of the tree
  shell (\<open>_mergeChild\<close>, outside this repository) coalesces bucket \<open>index\<close>
  with the bucket before it, and when \<open>forward\<close> is set with the bucket after
  it, when both are KnownEmpty (or forced).  It reports whether the bucket
  was merged into the one before it, so that the caller steps its cursor
  back.
\<close>

definition canMerge :: "'s bucket \<Rightarrow> 's bucket \<Rightarrow> bool \<Rightarrow> bool" where
  "canMerge a b force = (force \<or> (a = KnownEmpty \<and> b = KnownEmpty))"

definition mergeChild :: "'s pineNode \<Rightarrow> nat \<Rightarrow> bool \<Rightarrow> bool \<Rightarrow> bool \<times> 's pineNode" where
  "mergeChild n index forward force =
     (let ks = keys n; vs = vals n;
          front = (0 < index \<and> index < length vs
                   \<and> canMerge (vs ! (index - 1)) (vs ! index) force);
          ks1 = (if front then removeAt index ks else ks);
          vs1 = (if front then removeAt index vs else vs);
          i1 = (if front then index - 1 else index);
          back = (forward \<and> Suc i1 < length vs1
                  \<and> canMerge (vs1 ! i1) (vs1 ! Suc i1) force);
          ks2 = (if back then removeAt (Suc i1) ks1 else ks1);
          vs2 = (if back then removeAt (Suc i1) vs1 else vs1)
      in (front, setBuckets n ks2 vs2))"

text \<open>
  \<open>isEmpty\<close>, lines 840--842: \<open>!this.hasData && super.isEmpty\<close>.  Modelled
  from the spec: the shell's \<open>isEmpty\<close> and \<open>restructure ()\<close> (outside this
  repository).  \<open>restructure\<close> reports the node's validity and does not
  rebalance a pine tree; a node that is not the root is invalid when it is
  empty, and the shell counts a node as empty by the criterion written out at
  the end of \<open>remove\<close> (lines 633--635): no more than one bucket, and that
  bucket Unknown or KnownEmpty.
\<close>

definition superIsEmpty :: "'s pineNode \<Rightarrow> bool" where
  "superIsEmpty n =
     (case vals n of
        [] \<Rightarrow> True
      | [v] \<Rightarrow> v = Unknown \<or> v = KnownEmpty
      | _ \<Rightarrow> False)"

definition isEmpty :: "'s pineNode \<Rightarrow> bool" where
  "isEmpty n = (\<not> hasData n \<and> superIsEmpty n)"

definition restructure :: "'s pineNode \<Rightarrow> bool" where
  "restructure n = (isRoot n \<or> \<not> isEmpty n)"

text \<open>
  Modelled from the spec: the leaf (\<open>DataNode\<close>, outside this repository) is
  constructed with a start coordinate and an optional carry-over list.
  \<open>_traverseData\<close> (a static of the tree shell) moves the cursor over the
  queued entries that satisfy a test and calls the callback on each.  The
  leaf's \<open>insert\<close> folds the queued entries that start before it into the
  carry-over list, keeps of that list what still extends into the leaf,
  takes the entries that start at its coordinate as its raw entries, and
  adds them to the carry-over list of the props; it moves
  \<open>props.dataIndex\<close> when that is set and removes the consumed entries from the
  queue otherwise.
\<close>

definition newLeaf :: "int \<Rightarrow> 's chromRegion list \<Rightarrow> 's dataNode" where
  "newLeaf s carried = \<lparr>dn_start = s, dn_startList = [], dn_continuedList = carried\<rparr>"

definition traverseData ::
  "'s chromRegion list \<Rightarrow> nat \<Rightarrow> ('s chromRegion \<Rightarrow> bool) \<Rightarrow> 's insertProps
     \<Rightarrow> nat \<times> 's insertProps" where
  "traverseData data index crit props =
     (let passed = takeWhile crit (drop index data)
      in (index + length passed, foldl callCallback props passed))"

definition slice :: "'a list \<Rightarrow> nat \<Rightarrow> nat \<Rightarrow> 'a list" where
  "slice xs i j = take (j - i) (drop i xs)"

definition continuedListOf :: "'s insertProps \<Rightarrow> 's chromRegion list" where
  "continuedListOf props = (case ip_continuedList props of None \<Rightarrow> [] | Some c \<Rightarrow> c)"

definition leafInsert ::
  "'s dataNode \<Rightarrow> 's chromRegion list \<Rightarrow> 's insertProps
     \<Rightarrow> 's dataNode \<times> 's chromRegion list \<times> 's insertProps" where
  "leafInsert l data props =
     (let index = (case ip_dataIndex props of None \<Rightarrow> 0 | Some i \<Rightarrow> i);
          (i1, p1) = traverseData data index (\<lambda>e. cr_start e < dn_start l) props;
          carried = filter (\<lambda>e. cr_end e > dn_start l)
                      (continuedListOf props @ slice data index i1);
          (i2, p2) = traverseData data i1 (\<lambda>e. cr_start e = dn_start l) p1;
          started = slice data i1 i2;
          l' = l\<lparr>dn_startList := started, dn_continuedList := carried\<rparr>;
          p3 = p2\<lparr>ip_continuedList := Some (carried @ started)\<rparr>
      in case ip_dataIndex props of
           None \<Rightarrow> (l', drop i2 data, p3)
         | Some i \<Rightarrow> (l', data, p3\<lparr>ip_dataIndex := Some i2\<rparr>))"

section \<open>Insertion\<close>

definition keyBelow :: "int list \<Rightarrow> nat \<Rightarrow> int \<Rightarrow> bool" where
  "keyBelow ks i x = (case keyAt ks i of None \<Rightarrow> False | Some k \<Rightarrow> k < x)"

definition keyAbove :: "int list \<Rightarrow> nat \<Rightarrow> int \<Rightarrow> bool" where
  "keyAbove ks i x = (case keyAt ks i of None \<Rightarrow> False | Some k \<Rightarrow> x < k)"

definition dataIndexOf :: "'s insertProps \<Rightarrow> nat" where
  "dataIndexOf props = (case ip_dataIndex props of None \<Rightarrow> 0 | Some i \<Rightarrow> i)"

text \<open>
  \<open>if (this.keys[currIndex] < x) this._splitChild (currIndex++, x, fill)\<close>: the
  node and the cursor after the statement.
\<close>

definition splitBefore ::
  "'s pineNode \<Rightarrow> nat \<Rightarrow> int \<Rightarrow> 's bucket option \<Rightarrow> jsError + ('s pineNode \<times> nat)" where
  "splitBefore n i x fill =
     (if keyBelow (keys n) i x
      then (case splitChild n i x fill of Inl err \<Rightarrow> Inl err | Inr n' \<Rightarrow> Inr (n', Suc i))
      else Inr (n, i))"

text \<open>
  \<open>if (this.keys[currIndex + 1] > x) this._splitChild (currIndex, x)\<close>.
\<close>

definition splitAfter :: "'s pineNode \<Rightarrow> nat \<Rightarrow> int \<Rightarrow> jsError + 's pineNode" where
  "splitAfter n i x =
     (if keyAbove (keys n) (Suc i) x then splitChild n i x None else Inr n)"

text \<open>
  The branch of \<open>insert\<close> for a node whose resolution is sufficient, lines
  366--392.  The result is the node, the queue and the props as the branch
  leaves them.
\<close>

definition insertSummary ::
  "'s pineTree \<Rightarrow> 's pineNode \<Rightarrow> 's chromRegion list option \<Rightarrow> 's insertProps
     \<Rightarrow> jsError + ('s pineNode \<times> 's chromRegion list option \<times> 's insertProps)" where
  "insertSummary t n data props =
     (case data of
        None \<Rightarrow> Inl (TypeError ''Cannot read property length of null'')
      | Some ds \<Rightarrow>
          (case dropWhile (\<lambda>e. nstart n > cr_start e) ds of
             [] \<Rightarrow> Inr (n, Some [], props)
           | e # rest \<Rightarrow>
               if nstart n \<noteq> cr_start e \<or> nend n \<noteq> cr_end e then
                 if \<not> hasData n then
                   if nend n \<le> cr_start e then
                     (case SummaryCtor t of
                        None \<Rightarrow> Inl (TypeError ''this.tree._SummaryCtor is not a constructor'')
                      | Some ops \<Rightarrow>
                          (case updateSummary t n (Some (SummaryObject (newSummary ops))) of
                             Inl err \<Rightarrow> Inl err
                           | Inr n' \<Rightarrow> Inr (n', Some (e # rest), props)))
                   else Inl (Error ''Summary range does not match!'')
                 else Inr (n, Some (e # rest), props)
               else
                 (case updateSummary t n (Some (Region e)) of
                    Inl err \<Rightarrow> Inl err
                  | Inr n' \<Rightarrow> Inr (n', Some rest, callCallback props e))))"

text \<open>
  One pass of the loop of \<open>_addLeafRecords\<close>, lines 544--591: the node, the
  cursor, the props and the value \<open>prevDataIndex\<close> takes.
\<close>

definition leafStep ::
  "'s pineNode \<Rightarrow> 's chromRegion list \<Rightarrow> int \<Rightarrow> int \<Rightarrow> nat \<Rightarrow> 's insertProps
     \<Rightarrow> jsError + ('s pineNode \<times> nat \<times> 's insertProps \<times> nat)" where
  "leafStep n data crStart crEnd currIndex props =
     (let i1 = advanceIndex (keys n) currIndex crStart;
          prev = dataIndexOf props;
          (di, p1) = traverseData data prev (\<lambda>e. cr_start e < crStart) props;
          carried = filter (\<lambda>e. cr_end e > crStart)
                      (continuedListOf p1 @ slice data prev di);
          p2 = p1\<lparr>ip_dataIndex := Some di, ip_continuedList := Some carried\<rparr>
      in case splitBefore n i1 crStart (Some KnownEmpty) of
           Inl err \<Rightarrow> Inl err
         | Inr (n1, i2) \<Rightarrow>
             if di < length data \<and> keyAt (keys n1) i2 = Some (cr_start (data ! di))
             then
               (case leafInsert (newLeaf (cr_start (data ! di)) []) data p2 of
                  (l', data', p3) \<Rightarrow>
                    (case setValue n1 i2 (Leaf l') of
                       Inl err \<Rightarrow> Inl err
                     | Inr n2 \<Rightarrow> Inr (n2, i2, p3, prev)))
             else if keyBelow (keys n1) i2 crEnd then
               (case setValue n1 i2
                       (if carried = [] then KnownEmpty
                        else Leaf (newLeaf (keys n1 ! i2) carried)) of
                  Inl err \<Rightarrow> Inl err
                | Inr n2 \<Rightarrow>
                    (case mergeChild n2 i2 False False of
                       (merged, n3) \<Rightarrow>
                         Inr (n3, if merged then i2 - 1 else i2, p2, prev)))
             else Inr (n1, i2, p2, prev))"

text \<open>Lines 583--590: where the next pass starts.\<close>

definition nextStart :: "'s chromRegion list \<Rightarrow> int \<Rightarrow> 's insertProps \<Rightarrow> int" where
  "nextStart data crEnd props =
     (if dataIndexOf props < length data \<and> cr_start (data ! dataIndexOf props) < crEnd
      then cr_start (data ! dataIndexOf props) else crEnd)"

text \<open>
  The loop of \<open>_addLeafRecords\<close>, lines 543--592.  A loop of the source that
  may run forever takes fuel: \<open>None\<close> is the result when the fuel runs out.
  The state is the node, \<open>chrRange.start\<close>, the cursor, \<open>prevDataIndex\<close> and
  the props.
\<close>

fun addLeafLoop ::
  "nat \<Rightarrow> 's pineNode \<Rightarrow> 's chromRegion list \<Rightarrow> int \<Rightarrow> int \<Rightarrow> nat \<Rightarrow> nat option
     \<Rightarrow> 's insertProps
     \<Rightarrow> (jsError + ('s pineNode \<times> nat option \<times> 's insertProps)) option" where
  "addLeafLoop 0 n data crStart crEnd currIndex prevDataIndex props = None"
| "addLeafLoop (Suc fuel) n data crStart crEnd currIndex prevDataIndex props =
     (if crStart < crEnd then
        (case leafStep n data crStart crEnd currIndex props of
           Inl err \<Rightarrow> Some (Inl err)
         | Inr (n4, i4, p4, prev) \<Rightarrow>
             addLeafLoop fuel n4 data (nextStart data crEnd p4) crEnd i4 (Some prev) p4)
      else Some (Inr (n, prevDataIndex, props)))"

text \<open>\<open>_addLeafRecords\<close>, lines 507--602.\<close>

definition addLeafRecords ::
  "nat \<Rightarrow> 's pineNode \<Rightarrow> 's chromRegion list option \<Rightarrow> 's chromRegion \<Rightarrow> 's insertProps
     \<Rightarrow> (jsError + ('s pineNode \<times> 's chromRegion list option \<times> 's insertProps)) option" where
  "addLeafRecords fuel n data cr props =
     (if \<not> ip_LeafNodeCtor props
      then Some (Inl (Error ''LeafNodeCtor is not a constructor for a tree node!''))
      else
        (case data of
           None \<Rightarrow> Some (Inl (TypeError ''Cannot read property slice of null''))
         | Some ds \<Rightarrow>
             (case splitBefore n (advanceIndex (keys n) 0 (cr_start cr)) (cr_start cr) None of
                Inl err \<Rightarrow> Some (Inl err)
              | Inr (n1, i1) \<Rightarrow>
                  (case splitAfter n1 i1 (cr_end cr) of
                     Inl err \<Rightarrow> Some (Inl err)
                   | Inr n2 \<Rightarrow>
                       (case addLeafLoop fuel n2 ds (cr_start cr) (cr_end cr) i1 None
                               (props\<lparr>ip_dataIndex := Some 0,
                                  ip_continuedList := Some (continuedListOf props)\<rparr>) of
                          None \<Rightarrow> None
                        | Some (Inl err) \<Rightarrow> Some (Inl err)
                        | Some (Inr (n3, prev, p3)) \<Rightarrow>
                            Some (Inr (n3, Some (drop (dataIndexOf p3) ds),
                              p3\<lparr>ip_continuedList :=
                                    Some (filter (\<lambda>e. cr_end e > cr_end cr)
                                      (continuedListOf p3
                                         @ slice ds (case prev of None \<Rightarrow> 0 | Some i \<Rightarrow> i)
                                             (dataIndexOf p3))),
                                  ip_dataIndex := None\<rparr>)))))))"

text \<open>
  Lines 344--358 of \<open>insert\<close>: the check of the data and the range the
  insertion works on.
\<close>

definition insertRange :: "'s dataArg \<Rightarrow> 's chromRegion option \<Rightarrow> jsError + 's chromRegion" where
  "insertRange data chrRange =
     (if data = DataOther
      then Inl (Error ''Data is not an array! This will cause problems in continuedList.'')
      else
        (case (case (data, chrRange) of (DataArray [e], None) \<Rightarrow> Some e | _ \<Rightarrow> chrRange) of
           None \<Rightarrow> Inl (Error ''undefined is not a valid chrRegion.'')
         | Some cr0 \<Rightarrow> Inr cr0))"

definition arrayOf :: "'s dataArg \<Rightarrow> 's chromRegion list option" where
  "arrayOf data = (case data of DataArray ds \<Rightarrow> Some ds | _ \<Rightarrow> None)"

text \<open>Lines 403--404: \<open>this.updateSummary (); return this.restructure ()\<close>.\<close>

definition finishInsert ::
  "'s pineTree
     \<Rightarrow> (jsError + ('s pineNode \<times> 's chromRegion list option \<times> 's insertProps)) option
     \<Rightarrow> (jsError + (bool \<times> 's pineNode \<times> 's chromRegion list option \<times> 's insertProps)) option"
  where
  "finishInsert t r =
     (case r of
        None \<Rightarrow> None
      | Some (Inl err) \<Rightarrow> Some (Inl err)
      | Some (Inr (n1, data1, props1)) \<Rightarrow>
          (case updateSummary t n1 None of
             Inl err \<Rightarrow> Some (Inl err)
           | Inr n2 \<Rightarrow> Some (Inr (restructure n2, n2, data1, props1))))"

text \<open>
  Lines 432--470 of \<open>_addNonLeafRecords\<close>: the range of the child, the two
  splits, and what the pass does with the bucket at the cursor.
\<close>

datatype 's childTarget = Skip | IntoLeaf "'s dataNode" | IntoNode "'s pineNode"

definition childRangeStart :: "'s pineTree \<Rightarrow> 's pineNode \<Rightarrow> 's chromRegion \<Rightarrow> int" where
  "childRangeStart t n cr =
     fitResolution (real_of_int (cr_start cr)) (generalChildResolution t (reverseDepth n))
       (Some floor)"

definition childRangeEnd :: "'s pineTree \<Rightarrow> 's pineNode \<Rightarrow> 's chromRegion \<Rightarrow> int" where
  "childRangeEnd t n cr =
     min (nend n)
       (min (fitResolution (real_of_int (cr_end cr)) (generalChildResolution t (reverseDepth n))
               (Some ceiling))
            (childRangeStart t n cr + generalChildResolution t (reverseDepth n)))"

definition childLive ::
  "'s pineTree \<Rightarrow> 's pineNode \<Rightarrow> 's chromRegion list \<Rightarrow> 's chromRegion \<Rightarrow> 's insertProps \<Rightarrow> bool"
  where
  "childLive t n ds cr props =
     ((ds \<noteq> [] \<and> cr_start (hd ds) < childRangeEnd t n cr)
      \<or> (case ip_continuedList props of
            None \<Rightarrow> False
          | Some cl \<Rightarrow> list_ex (\<lambda>e. cr_end e > childRangeStart t n cr) cl)
      \<or> (cr_start cr > childRangeStart t n cr \<or> cr_end cr < childRangeEnd t n cr))"

definition childTarget ::
  "'s pineTree \<Rightarrow> 's pineNode \<Rightarrow> 's chromRegion list option \<Rightarrow> 's chromRegion \<Rightarrow> nat
     \<Rightarrow> 's insertProps
     \<Rightarrow> jsError + ('s pineNode \<times> nat \<times> 's chromRegion list \<times> 's childTarget)" where
  "childTarget t n data cr currIndex props =
     (case splitBefore n (advanceIndex (keys n) currIndex (childRangeStart t n cr))
             (childRangeStart t n cr) None of
        Inl err \<Rightarrow> Inl err
      | Inr (n1, i) \<Rightarrow>
          (case splitAfter n1 i (childRangeEnd t n cr) of
             Inl err \<Rightarrow> Inl err
           | Inr n2 \<Rightarrow>
               (case data of
                  None \<Rightarrow> Inl (TypeError ''Cannot read property 0 of null'')
                | Some ds \<Rightarrow>
                    if childLive t n ds cr props then
                      (case valueAt (vals n2) i of
                         None \<Rightarrow> Inl (Error ''bucket index out of range'')
                       | Some (Leaf l) \<Rightarrow> Inr (n2, i, ds, IntoLeaf l)
                       | Some (Branch c) \<Rightarrow> Inr (n2, i, ds, IntoNode c)
                       | Some _ \<Rightarrow>
                           Inr (n2, i, ds,
                             IntoNode (newPineNode t False (childRangeStart t n cr)
                                         (childRangeEnd t n cr))))
                    else Inr (n2, i, ds, Skip))))"

text \<open>
  Lines 471--476: the child is stored at the cursor, and \<open>fixChildFlag\<close> is
  the negation of what its \<open>insert\<close> returned.
\<close>

definition storeChild ::
  "'s pineNode \<Rightarrow> nat
     \<Rightarrow> (jsError + (bool \<times> 's pineNode \<times> 's chromRegion list option \<times> 's insertProps)) option
     \<Rightarrow> (jsError + (bool \<times> 's pineNode \<times> 's chromRegion list option \<times> 's insertProps)) option"
  where
  "storeChild n i r =
     (case r of
        None \<Rightarrow> None
      | Some (Inl err) \<Rightarrow> Some (Inl err)
      | Some (Inr (valid, c', data', props')) \<Rightarrow>
          Some (Inr (\<not> valid, setBuckets n (keys n) ((vals n)[i := Branch c']), data', props')))"

definition storeLeaf ::
  "'s pineNode \<Rightarrow> nat \<Rightarrow> 's dataNode \<Rightarrow> 's chromRegion list \<Rightarrow> 's insertProps
     \<Rightarrow> (jsError + (bool \<times> 's pineNode \<times> 's chromRegion list option \<times> 's insertProps)) option"
  where
  "storeLeaf n i l ds props =
     (case leafInsert l ds props of
        (l', ds', props') \<Rightarrow>
          Some (Inr (False, setBuckets n (keys n) ((vals n)[i := Leaf l']), Some ds', props')))"

text \<open>
  Lines 483--500: a child to fix becomes \<open>false\<close> and is merged with its
  neighbours; the result is the node and the cursor.
\<close>

definition fixChild :: "bool \<Rightarrow> 's pineNode \<Rightarrow> nat \<Rightarrow> jsError + ('s pineNode \<times> nat)" where
  "fixChild fixChildFlag n i =
     (if fixChildFlag
      then (case setValue n i KnownEmpty of
              Inl err \<Rightarrow> Inl err
            | Inr n4 \<Rightarrow>
                (case mergeChild n4 i True False of
                   (merged, n5) \<Rightarrow> Inr (n5, if merged then i - 1 else i)))
      else Inr (n, i))"

text \<open>
  \<open>insert\<close>, lines 343--405, and the loop of \<open>_addNonLeafRecords\<close>, lines
  430--504, which calls \<open>insert\<close> on a child.  \<open>insert\<close> returns the verdict
  of \<open>restructure ()\<close>, the node, the queue and the props.  A child that is a
  leaf is inserted into by the leaf's own \<open>insert\<close>.
\<close>

fun insert ::
  "nat \<Rightarrow> 's pineTree \<Rightarrow> 's pineNode \<Rightarrow> 's dataArg \<Rightarrow> 's chromRegion option \<Rightarrow> 's insertProps
     \<Rightarrow> (jsError + (bool \<times> 's pineNode \<times> 's chromRegion list option \<times> 's insertProps)) option"
and addNonLeafLoop ::
  "nat \<Rightarrow> 's pineTree \<Rightarrow> 's pineNode \<Rightarrow> 's chromRegion list option \<Rightarrow> 's chromRegion \<Rightarrow> nat
     \<Rightarrow> 's insertProps
     \<Rightarrow> (jsError + ('s pineNode \<times> 's chromRegion list option \<times> 's insertProps)) option" where
  "insert 0 t n data chrRange props = None"
| "insert (Suc fuel) t n data chrRange props =
     (case insertRange data chrRange of
        Inl err \<Rightarrow> Some (Inl err)
      | Inr cr0 \<Rightarrow>
          finishInsert t
            (if resolutionEnough t n
                  (Some (resolutionOr (cr_resolution cr0) (ip_resolution props)))
             then Some (insertSummary t n (arrayOf data) props)
             else if reverseDepth n > 0
             then addNonLeafLoop fuel t n (arrayOf data) (truncateChrRange n cr0) 0 props
             else addLeafRecords fuel n (arrayOf data) (truncateChrRange n cr0) props))"
| "addNonLeafLoop 0 t n data cr currIndex props = None"
| "addNonLeafLoop (Suc fuel) t n data cr currIndex props =
     (if cr_start cr < cr_end cr then
        (case childTarget t n data cr currIndex props of
           Inl err \<Rightarrow> Some (Inl err)
         | Inr (n2, i, ds, target) \<Rightarrow>
             (case (case target of
                      Skip \<Rightarrow> Some (Inr (True, n2, Some ds, props))
                    | IntoLeaf l \<Rightarrow> storeLeaf n2 i l ds props
                    | IntoNode c \<Rightarrow>
                        storeChild n2 i (insert fuel t c (DataArray ds) (Some cr) props)) of
                None \<Rightarrow> None
              | Some (Inl err) \<Rightarrow> Some (Inl err)
              | Some (Inr (fixChildFlag, n3, data3, props3)) \<Rightarrow>
                  (case fixChild fixChildFlag n3 i of
                     Inl err \<Rightarrow> Some (Inl err)
                   | Inr (n6, i6) \<Rightarrow>
                       addNonLeafLoop fuel t n6 data3
                         (cr\<lparr>cr_start := min (childRangeEnd t n cr) (cr_end cr)\<rparr>)
                         (Suc i6) props3)))
      else Some (Inr (n, data, props)))"

section \<open>Removal\<close>

text \<open>
  \<open>props\<close> of \<open>remove\<close>: whether \<open>props.callback\<close> is a function, and the nodes
  it was called with.  Modelled from the spec: \<open>clear (convertTo)\<close> of the
  tree shell (outside this repository) clears the node's contents to the
  fill value: one bucket over the node's range; the source has no override
  that would touch \<open>_summary\<close>.  \<open>firstChild\<close> is the shell's getter for
  \<open>this.values[0]\<close>.
\<close>

record 's removeProps =
  rp_hasCallback :: bool
  rp_called :: "'s pineNode list"

definition callRemoveCallback :: "'s removeProps \<Rightarrow> 's pineNode \<Rightarrow> 's removeProps" where
  "callRemoveCallback props n =
     (if rp_hasCallback props then props\<lparr>rp_called := rp_called props @ [n]\<rparr> else props)"

definition clear :: "'s pineNode \<Rightarrow> 's bucket \<Rightarrow> 's pineNode" where
  "clear n convertTo = setBuckets n [nstart n, nend n] [convertTo]"

text \<open>
  Lines 633--635: \<open>this.values.length > 1 || (this.firstChild !== null &&
  this.firstChild !== false)\<close>; with no bucket at all \<open>firstChild\<close> is
  \<open>undefined\<close>.
\<close>

definition stillHolds :: "'s pineNode \<Rightarrow> bool" where
  "stillHolds n =
     (length (vals n) > 1
      \<or> (case vals n of [] \<Rightarrow> True | v # vs \<Rightarrow> v \<noteq> Unknown \<and> v \<noteq> KnownEmpty))"

text \<open>
  \<open>while (i < this.values.length && this.keys[i + 1] <= data.start) i++\<close>.
\<close>

function locateIndex :: "int list \<Rightarrow> nat \<Rightarrow> nat \<Rightarrow> int \<Rightarrow> nat" where
  "locateIndex ks len i cs =
     (if i < len \<and> Suc i < length ks \<and> ks ! Suc i \<le> cs
      then locateIndex ks len (Suc i) cs else i)"
  by pat_completeness auto

termination locateIndex
  by (relation "measure (\<lambda>(ks, len, i, cs). len - i)") auto

declare locateIndex.simps [simp del]

text \<open>
  Modelled from the spec: the leaf's \<open>remove\<close> (\<open>DataNode\<close>, outside this
  repository) drops from its raw entries those over the target's range (the
  target itself when \<open>exactMatch\<close> is set) and reports whether it still
  holds an entry.
\<close>

definition leafRemove :: "'s dataNode \<Rightarrow> 's chromRegion \<Rightarrow> bool \<Rightarrow> bool \<times> 's dataNode" where
  "leafRemove l data exactMatch =
     (let kept = filter (\<lambda>e. \<not> (cr_start e = cr_start data \<and> cr_end e = cr_end data
                               \<and> (\<not> exactMatch \<or> e = data))) (dn_startList l)
      in (kept \<noteq> [] \<or> dn_continuedList l \<noteq> [], l\<lparr>dn_startList := kept\<rparr>))"

text \<open>
  Lines 626--629: a child whose \<open>remove\<close> returned a falsy value is replaced
  by \<open>convertTo\<close> and merged with its neighbours.
\<close>

definition replaceChild :: "'s pineNode \<Rightarrow> nat \<Rightarrow> bool \<Rightarrow> 's bucket \<Rightarrow> 's bucket \<Rightarrow> 's pineNode" where
  "replaceChild n i valid child convertTo =
     (if valid then setBuckets n (keys n) ((vals n)[i := child])
      else snd (mergeChild (setBuckets n (keys n) ((vals n)[i := convertTo])) i True False))"

lemma branch_size: "Branch c \<in> set (vals n) \<Longrightarrow> size c < size n"
proof -
  assume a: "Branch c \<in> set (vals n)"
  have "size (Branch c) \<le> size_list size (vals n)"
    using a by (rule size_list_estimation') simp
  then show ?thesis by (cases n) simp
qed

lemma valueAt_branch_size: "valueAt (vals n) i = Some (Branch c) \<Longrightarrow> size c < size n"
proof -
  assume "valueAt (vals n) i = Some (Branch c)"
  then have "i < length (vals n)" "vals n ! i = Branch c"
    by (auto simp: valueAt_def split: if_splits)
  then have "Branch c \<in> set (vals n)" using nth_mem[of i "vals n"] by simp
  then show ?thesis by (rule branch_size)
qed

text \<open>
  \<open>remove\<close>, lines 604--636.  \<open>cmp\<close> is \<open>_compareData\<close>, a static of the tree
  shell.  The result is the truth value of what the source returns, the node,
  the props and the logger's warnings.
\<close>

function remove ::
  "('s chromRegion \<Rightarrow> 's pineNode \<Rightarrow> bool) \<Rightarrow> 's pineNode \<Rightarrow> 's chromRegion \<Rightarrow> bool \<Rightarrow> 's bucket
     \<Rightarrow> 's removeProps \<Rightarrow> string list \<Rightarrow> bool \<times> 's pineNode \<times> 's removeProps \<times> string list"
  where
  "remove cmp n data exactMatch convertTo props warnings =
     (if nstart n = cr_start data \<and> nend n = cr_end data \<and> (\<not> exactMatch \<or> cmp data n)
      then (isRoot n, clear n convertTo, callRemoveCallback props n, warnings)
      else
        (case valueAt (vals n) (locateIndex (keys n) (length (vals n)) 0 (cr_start data)) of
           Some (Branch c) \<Rightarrow>
             (case remove cmp c data exactMatch convertTo props warnings of
                (valid, c', props', warnings') \<Rightarrow>
                  (stillHolds (replaceChild n
                       (locateIndex (keys n) (length (vals n)) 0 (cr_start data))
                       valid (Branch c') convertTo),
                   replaceChild n (locateIndex (keys n) (length (vals n)) 0 (cr_start data))
                     valid (Branch c') convertTo,
                   props', warnings'))
         | Some (Leaf l) \<Rightarrow>
             (case leafRemove l data exactMatch of
                (valid, l') \<Rightarrow>
                  (stillHolds (replaceChild n
                       (locateIndex (keys n) (length (vals n)) 0 (cr_start data))
                       valid (Leaf l') convertTo),
                   replaceChild n (locateIndex (keys n) (length (vals n)) 0 (cr_start data))
                     valid (Leaf l') convertTo,
                   props, warnings))
         | _ \<Rightarrow> (stillHolds n, n, props, warnings @ [''Data is not found in the tree.''])))"
  by pat_completeness auto

termination remove
  by (relation "measure (\<lambda>(cmp, n, data, exactMatch, convertTo, props, warnings). size n)")
    (auto dest: valueAt_branch_size)

declare remove.simps [simp del]

section \<open>Vocabulary of the summary invariant\<close>

text \<open>
  A node is summary-complete when it holds a summary whenever every one of
  its buckets has data (is KnownEmpty, a leaf, or a child with a summary),
  and every child node beneath it is summary-complete in turn.
\<close>

fun summaryComplete :: "'s pineNode \<Rightarrow> bool"
and bucketsComplete :: "'s bucket list \<Rightarrow> bool" where
  "summaryComplete (PineNode ir s e rd ks vs sm scr) =
     ((list_all bucketHasData vs \<longrightarrow> sm \<noteq> None) \<and> bucketsComplete vs)"
| "bucketsComplete [] = True"
| "bucketsComplete (b # bs) =
     ((case b of Branch c \<Rightarrow> summaryComplete c | _ \<Rightarrow> True) \<and> bucketsComplete bs)"

section \<open>Example nodes and callbacks for the concrete evaluations\<close>

text \<open>
  \<open>cachedNode\<close>: a summary node of reverse depth 0 that carries a cached
  summary over an Unknown bucket.  \<open>staleWrapperNode\<close>: a node without summary
  that still holds a wrapper.  \<open>collect\<close>: a callback that records every entry
  it is given and returns true.
\<close>

definition cachedNode :: "nat pineNode" where
  "cachedNode =
     PineNode False 0 100 0 [0, 100] [Unknown] (Some 5)
       (Some (Region \<lparr>cr_start = 0, cr_end = 100, cr_resolution = None, cr_data = Some 5\<rparr>))"

definition staleWrapperNode :: "nat pineNode" where
  "staleWrapperNode =
     PineNode False 0 1000 1 [0, 100, 1000] [KnownEmpty, Unknown] None
       (Some (Region \<lparr>cr_start = 0, cr_end = 1000, cr_resolution = None, cr_data = Some 7\<rparr>))"

definition collect :: "'e \<Rightarrow> 'e list \<Rightarrow> bool \<times> 'e list" where
  "collect entry acc = (True, acc @ [entry])"

text \<open>
  Nodes and props of the uncached-range examples: the node \<open>[0, 1000)\<close> of
  Scenario A after the entry \<open>[500, 600)\<close> was inserted over its own range
  (\<open>scenarioMidNode\<close>, the leaf-level node \<open>scenarioLeafNode\<close> under it), a node
  that is confirmed empty, a node that is wholly unknown, props of a fresh
  query and props that carry an earlier result.
\<close>

definition scenarioEntry :: "nat chromRegion" where
  "scenarioEntry = \<lparr>cr_start = 500, cr_end = 600, cr_resolution = None, cr_data = None\<rparr>"

definition scenarioLeafNode :: "nat pineNode" where
  "scenarioLeafNode =
     PineNode False 500 600 0 [500, 600]
       [Leaf \<lparr>dn_start = 500, dn_startList = [scenarioEntry], dn_continuedList = []\<rparr>]
       (Some 1)
       (Some (Region \<lparr>cr_start = 500, cr_end = 600, cr_resolution = None, cr_data = Some 1\<rparr>))"

definition scenarioMidNode :: "nat pineNode" where
  "scenarioMidNode =
     PineNode False 0 1000 1 [0, 500, 600, 1000]
       [Unknown, Branch scenarioLeafNode, Unknown] None None"

definition freshProps :: "nat queryProps" where
  "freshProps = \<lparr>qp_resolution = None, qp_bufferingRatio = None, qp_result = None\<rparr>"

definition carriedProps :: "nat queryProps" where
  "carriedProps =
     \<lparr>qp_resolution = None, qp_bufferingRatio = None,
      qp_result = Some [\<lparr>cr_start = 5000, cr_end = 6000, cr_resolution = Some 1,
                         cr_data = None\<rparr>]\<rparr>"

definition emptyNode :: "nat pineNode" where
  "emptyNode = PineNode False 0 1000 1 [0, 1000] [KnownEmpty] (Some 0) None"

definition unknownNode :: "nat pineNode" where
  "unknownNode = PineNode False 0 1000 1 [0, 1000] [Unknown] None None"

definition queryRange :: "nat chromRegion" where
  "queryRange = \<lparr>cr_start = 0, cr_end = 1000, cr_resolution = Some 1, cr_data = None\<rparr>"




text \<open>
  Examples of insertion at a sufficient resolution: a fresh node \<open>[0, 100)\<close>
  of reverse depth 0 (resolution 100), props that ask for resolution 100 and
  record the callback's calls, entries that carry a summary value, and a tree
  whose summary type also accepts a bare summary object.
\<close>

definition summaryNode :: "nat pineNode" where
  "summaryNode = PineNode False 0 100 0 [0, 100] [Unknown] None None"

definition plainProps :: "nat insertProps" where
  "plainProps =
     \<lparr>ip_continuedList = None, ip_hasCallback = True, ip_called = [], ip_resolution = Some 100,
      ip_LeafNodeCtor = True, ip_dataIndex = None\<rparr>"

definition entryOver :: "int \<Rightarrow> int \<Rightarrow> nat \<Rightarrow> nat chromRegion" where
  "entryOver s e v = \<lparr>cr_start = s, cr_end = e, cr_resolution = None, cr_data = Some v\<rparr>"

definition acceptingTree :: "nat pineTree" where
  "acceptingTree =
     \<lparr>scalingFactor = 10, leafScalingFactor = 100,
      SummaryCtor = Some (exampleSummaryCtor\<lparr>extractFrom :=
        (\<lambda>ce. case ce of Region r \<Rightarrow> cr_data r | SummaryObject s \<Rightarrow> Some s)\<rparr>)\<rparr>"

definition wholeRange :: "nat chromRegion" where
  "wholeRange = \<lparr>cr_start = 0, cr_end = 100, cr_resolution = None, cr_data = None\<rparr>"

text \<open>
  Scenario A: props of a plain insertion (no callback, no resolution hint, a
  valid leaf constructor); the tree \<open>[0, 100000)\<close> after the entry
  \<open>[500, 600)\<close> was inserted over its own range (\<open>scenarioRoot\<close>) and after it
  was inserted over the whole span (\<open>coveredRoot\<close>, where the rest of the span
  is confirmed empty and every node carries the summary of the one entry);
  the queries over the span and over the entry's range at resolution 1; the
  props of a first traversal.
\<close>

definition scenarioProps :: "nat insertProps" where
  "scenarioProps =
     \<lparr>ip_continuedList = None, ip_hasCallback = False, ip_called = [], ip_resolution = None,
      ip_LeafNodeCtor = True, ip_dataIndex = None\<rparr>"

definition scenarioUpperNode :: "nat pineNode" where
  "scenarioUpperNode =
     PineNode False 0 10000 2 [0, 1000, 10000] [Branch scenarioMidNode, Unknown] None None"

definition scenarioRoot :: "nat pineNode" where
  "scenarioRoot =
     PineNode True 0 100000 3 [0, 10000, 100000] [Branch scenarioUpperNode, Unknown] None None"

definition summarised :: "int \<Rightarrow> int \<Rightarrow> nat chromEntry option" where
  "summarised s e =
     Some (Region \<lparr>cr_start = s, cr_end = e, cr_resolution = None, cr_data = Some 1\<rparr>)"

definition coveredMidNode :: "nat pineNode" where
  "coveredMidNode =
     PineNode False 0 1000 1 [0, 500, 600, 1000]
       [KnownEmpty, Branch scenarioLeafNode, KnownEmpty] (Some 1) (summarised 0 1000)"

definition coveredUpperNode :: "nat pineNode" where
  "coveredUpperNode =
     PineNode False 0 10000 2 [0, 1000, 10000] [Branch coveredMidNode, KnownEmpty] (Some 1)
       (summarised 0 10000)"

definition coveredRoot :: "nat pineNode" where
  "coveredRoot =
     PineNode True 0 100000 3 [0, 10000, 100000] [Branch coveredUpperNode, KnownEmpty] (Some 1)
       (summarised 0 100000)"

definition spanRange :: "nat chromRegion" where
  "spanRange = \<lparr>cr_start = 0, cr_end = 100000, cr_resolution = None, cr_data = None\<rparr>"

definition spanQuery :: "nat chromRegion" where
  "spanQuery = \<lparr>cr_start = 0, cr_end = 100000, cr_resolution = Some 1, cr_data = None\<rparr>"

definition entryQuery :: "nat chromRegion" where
  "entryQuery = \<lparr>cr_start = 500, cr_end = 600, cr_resolution = Some 1, cr_data = None\<rparr>"

definition firstCall :: "traverseProps" where
  "firstCall = \<lparr>tp_resolution = None, tp_notFirstCall = False\<rparr>"

text \<open>
  A one-node tree over \<open>[0, 100)\<close> after a summary entry over its range was
  inserted at resolution 100 (\<open>summarisedRoot\<close>), and a node without summary
  whose only bucket is confirmed empty.
\<close>

definition summarisedRoot :: "nat pineNode" where
  "summarisedRoot =
     PineNode True 0 100 0 [0, 100] [Unknown] (Some 5) (Some (Region (entryOver 0 100 5)))"

definition clearedNode :: "nat pineNode" where
  "clearedNode = PineNode False 0 1000 1 [0, 1000] [KnownEmpty] None None"

text \<open>
  Examples of removal: the root \<open>[0, 1000)\<close> after an empty queue was
  inserted over \<open>[50, 1000)\<close> at resolution 1 (\<open>halfKnownRoot\<close>: the child
  \<open>[0, 100)\<close> is unknown below 50, the rest is confirmed empty), the target
  \<open>[0, 100)\<close> of a removal, and the root after it (\<open>emptiedRoot\<close>).
\<close>

definition partRange :: "nat chromRegion" where
  "partRange = \<lparr>cr_start = 50, cr_end = 1000, cr_resolution = None, cr_data = None\<rparr>"

definition halfKnownRoot :: "nat pineNode" where
  "halfKnownRoot =
     PineNode True 0 1000 1 [0, 100, 1000]
       [Branch (PineNode False 0 100 0 [0, 50, 100] [Unknown, KnownEmpty] None None), KnownEmpty]
       None None"

definition emptiedRoot :: "nat pineNode" where
  "emptiedRoot = PineNode True 0 1000 1 [0, 1000] [KnownEmpty] None None"

definition removeTarget :: "nat chromRegion" where
  "removeTarget = \<lparr>cr_start = 0, cr_end = 100, cr_resolution = None, cr_data = None\<rparr>"

definition plainRemoveProps :: "nat removeProps" where
  "plainRemoveProps = \<lparr>rp_hasCallback = False, rp_called = []\<rparr>"

section \<open>Resolution ladder\<close>


lemma ladder_ge_one:
  assumes "1 \<le> (sf::real)" "1 \<le> lsf"
  shows "1 \<le> lsf * sf ^ d"
proof -
  have "1 \<le> sf ^ d" using assms(1) by (rule one_le_power)
  then have "1 * 1 \<le> lsf * sf ^ d" using assms(2) by (intro mult_mono) auto
  then show ?thesis by simp
qed







section \<open>Closest resolution\<close>

lemma closest_exponent:
  assumes sf: "1 < sf" and lsf: "1 \<le> lsf" and r: "lsf \<le> (r::real)"
  defines "k \<equiv> \<lfloor>ln (r / lsf) / ln sf\<rfloor>"
  shows "0 \<le> k" and "lsf * sf ^ nat k \<le> r" and "r < lsf * sf ^ Suc (nat k)"
proof -
  have q: "1 \<le> r / lsf" using lsf r by simp
  have klog: "k = \<lfloor>log sf (r / lsf)\<rfloor>" by (simp add: k_def log_def)
  have "0 \<le> log sf (r / lsf)" using sf q by simp
  then show k0: "0 \<le> k" unfolding klog by simp
  have "sf powr k \<le> r / lsf \<and> r / lsf < sf powr (k + 1)"
    using floor_log_eq_powr_iff[of "r / lsf" sf k] sf q klog by simp
  moreover have "sf powr k = sf ^ nat k" using k0 sf powr_realpow[of sf "nat k"] by simp
  moreover have "sf powr (k + 1) = sf ^ Suc (nat k)"
    using k0 sf powr_realpow[of sf "Suc (nat k)"] by (simp add: add.commute)
  ultimately have "sf ^ nat k \<le> r / lsf" "r / lsf < sf ^ Suc (nat k)" by simp_all
  then show "lsf * sf ^ nat k \<le> r" "r < lsf * sf ^ Suc (nat k)"
    using lsf by (simp_all add: field_simps)
qed

lemma getClosestResolution_ge:
  assumes "1 < scalingFactor t" "1 \<le> leafScalingFactor t" "leafScalingFactor t \<le> r"
  shows "getClosestResolution t r =
      \<lfloor>leafScalingFactor t * scalingFactor t ^
          nat \<lfloor>ln (r / leafScalingFactor t) / ln (scalingFactor t)\<rfloor>\<rfloor>"
  using closest_exponent(1)[OF assms] assms(3)
  by (simp add: getClosestResolution_def parseInt_def power_int_def mult.commute)





section \<open>Fitting a coordinate to a bin\<close>

text \<open>
  C10: called without a rounding function, \<open>fitResolution v r\<close> rounds to the
  nearest bin boundary: for \<open>r > 0\<close> it returns \<open>round (v / r) \<sqdot> r\<close>, the same as
  with \<open>Math.round\<close> passed explicitly.  (The resolution is an integer here, as
  at every call in the source; the witness shows that \<open>Math.floor\<close> gives a
  different result.)
\<close>

theorem C10_default_rounding:
  assumes "0 < r"
  shows "fitResolution v r None = round (v / real_of_int r) * r
    \<and> fitResolution v r None = fitResolution v r (Some round)"
  by (simp add: fitResolution_def parseInt_def)

theorem C10_default_rounding_witness:
  "fitResolution 16 10 None = 20 \<and> fitResolution 16 10 (Some floor) = 10
   \<and> fitResolution 16 10 (Some round) = 20"
  using C10_default_rounding[of 10 16]
  by (simp add: fitResolution_def parseInt_def round_def)

section \<open>Summary refresh: recomputation\<close>

lemma summaryFromChildren_abort:
  assumes "0 < rd"
    and "Unknown \<in> set bs \<or> (\<exists>c. Branch c \<in> set bs \<and> summary c = None)"
  shows "summaryFromChildren ops rd rng bs acc = Inr None"
  using assms(2)
proof (induction bs arbitrary: acc)
  case Nil
  then show ?case by simp
next
  case (Cons b bs)
  show ?case
  proof (cases b)
    case Unknown
    then show ?thesis by simp
  next
    case KnownEmpty
    with Cons show ?thesis by auto
  next
    case (Branch c)
    with Cons assms(1) show ?thesis by (cases "summary c") auto
  next
    case (Leaf l)
    with Cons assms(1) show ?thesis by auto
  qed
qed

lemma summaryFromChildren_abort_leaf_level:
  assumes "rd \<le> 0" and "Unknown \<in> set bs"
  shows "summaryFromChildren ops rd rng bs acc = Inr None
    \<or> (summaryFromChildren ops rd rng bs acc = Inl (Error ''null is not a valid chrRegion.'')
        \<and> (\<exists>c. Branch c \<in> set bs))"
  using assms(2)
proof (induction bs arbitrary: acc)
  case Nil
  then show ?case by simp
next
  case (Cons b bs)
  show ?case
  proof (cases b)
    case Unknown
    then show ?thesis by simp
  next
    case KnownEmpty
    with Cons show ?thesis by auto
  next
    case (Branch c)
    with assms(1) show ?thesis by auto
  next
    case (Leaf l)
    with Cons assms(1) show ?thesis by auto
  qed
qed

lemma summaryFromChildren_complete:
  assumes "0 < rd \<or> (\<forall>c. Branch c \<notin> set bs)"
  shows "(if \<forall>b\<in>set bs. bucketHasData b
          then \<exists>s. summaryFromChildren ops rd rng bs acc = Inr (Some s)
          else summaryFromChildren ops rd rng bs acc = Inr None)"
  using assms
proof (induction bs arbitrary: acc)
  case Nil
  then show ?case by simp
next
  case (Cons b bs)
  then have tl: "0 < rd \<or> (\<forall>c. Branch c \<notin> set bs)" by auto
  note IH = Cons.IH[OF tl]
  show ?case
  proof (cases b)
    case Unknown
    then show ?thesis by simp
  next
    case KnownEmpty
    with IH[of acc] show ?thesis by simp
  next
    case (Branch c)
    with Cons.prems have rd: "0 < rd" by auto
    show ?thesis
    proof (cases "summary c")
      case None
      with Branch rd show ?thesis by (simp add: hasData_def)
    next
      case (Some s)
      with Branch rd IH[of "addSummary ops rng acc (Some s)"] show ?thesis
        by (simp add: hasData_def)
    qed
  next
    case (Leaf l)
    show ?thesis
    proof (cases "0 < rd")
      case True
      with Leaf IH[of "addSummary ops rng acc None"] show ?thesis
        by (simp add: leafHasData_def)
    next
      case False
      with Leaf IH[of "foldl (addDataFromChromEntry ops rng) acc (dn_startList l)"]
      show ?thesis by (simp add: leafHasData_def)
    qed
  qed
qed

text \<open>
  C8, as stated, has every call without a valid precomputed summary recompute
  the summary and discard a cached value when a bucket is Unknown.  The
  recomputation is guarded by \<open>else if (!this.summary)\<close>: a node that holds a
  cached summary and an Unknown bucket keeps the summary.
\<close>

theorem C8_cached_summary_kept_counterexample:
  "Unknown \<in> set (vals cachedNode)
   \<and> updateSummary scenarioTree cachedNode None = Inr cachedNode
   \<and> summary cachedNode = Some 5"
  by (simp add: cachedNode_def updateSummary_def scenarioTree_def)

text \<open>
  C8 (amended): let \<open>updateSummary\<close> be called with a summary type installed
  and without a valid precomputed summary.  If the node holds a cached
  summary, the node is left as it is.  If it holds none, the buckets are
  folded afresh, and when some bucket is Unknown, or at reverse depth above 0
  some child node has no summary, the summary stays absent, the cached wrapper
  is deleted and nothing else changes; at reverse depth 0 the call may instead
  throw, on a child that is a \<open>PineNode\<close>, before it reaches the Unknown
  bucket.
\<close>

theorem C8_recomputation_aborts:
  assumes "SummaryCtor t = Some ops"
    and "chromEntry = None \<or> (\<exists>ce. chromEntry = Some ce \<and> extractFrom ops ce = None)"
  shows "(summary n \<noteq> None \<longrightarrow> updateSummary t n chromEntry = Inr n)
    \<and> (summary n = None \<and> 0 < reverseDepth n
         \<and> (Unknown \<in> set (vals n) \<or> (\<exists>c. Branch c \<in> set (vals n) \<and> summary c = None))
        \<longrightarrow> updateSummary t n chromEntry = Inr (setSummary n None None))
    \<and> (summary n = None \<and> reverseDepth n \<le> 0 \<and> Unknown \<in> set (vals n)
        \<longrightarrow> updateSummary t n chromEntry = Inr (setSummary n None None)
            \<or> (updateSummary t n chromEntry = Inl (Error ''null is not a valid chrRegion.'')
                \<and> (\<exists>c. Branch c \<in> set (vals n))))"
proof -
  have pre: "(case chromEntry of None \<Rightarrow> None | Some ce \<Rightarrow> extractFrom ops ce) = None"
    using assms(2) by auto
  have kept: "summary n \<noteq> None \<longrightarrow> updateSummary t n chromEntry = Inr n"
    using assms(1) pre by (auto simp: updateSummary_def)
  have upper: "summary n = None \<and> 0 < reverseDepth n
         \<and> (Unknown \<in> set (vals n) \<or> (\<exists>c. Branch c \<in> set (vals n) \<and> summary c = None))
        \<longrightarrow> updateSummary t n chromEntry = Inr (setSummary n None None)"
  proof (intro impI, elim conjE)
    assume a: "summary n = None" "0 < reverseDepth n"
      "Unknown \<in> set (vals n) \<or> (\<exists>c. Branch c \<in> set (vals n) \<and> summary c = None)"
    have "summaryFromChildren ops (reverseDepth n) (nstart n, nend n) (vals n) (newSummary ops)
        = Inr None"
      by (rule summaryFromChildren_abort[OF a(2,3)])
    then show "updateSummary t n chromEntry = Inr (setSummary n None None)"
      using assms(1) pre a(1) by (simp add: updateSummary_def)
  qed
  have leaf: "summary n = None \<and> reverseDepth n \<le> 0 \<and> Unknown \<in> set (vals n)
        \<longrightarrow> updateSummary t n chromEntry = Inr (setSummary n None None)
            \<or> (updateSummary t n chromEntry = Inl (Error ''null is not a valid chrRegion.'')
                \<and> (\<exists>c. Branch c \<in> set (vals n)))"
  proof (intro impI, elim conjE)
    assume a: "summary n = None" "reverseDepth n \<le> 0" "Unknown \<in> set (vals n)"
    from summaryFromChildren_abort_leaf_level[OF a(2,3),
        of ops "(nstart n, nend n)" "newSummary ops"]
    show "updateSummary t n chromEntry = Inr (setSummary n None None)
            \<or> (updateSummary t n chromEntry = Inl (Error ''null is not a valid chrRegion.'')
                \<and> (\<exists>c. Branch c \<in> set (vals n)))"
      using assms(1) pre a(1) by (auto simp: updateSummary_def)
  qed
  from kept upper leaf show ?thesis by blast
qed

theorem C8_recomputation_aborts_witness:
  "updateSummary scenarioTree cachedNode None = Inr cachedNode
   \<and> updateSummary scenarioTree staleWrapperNode None
       = Inr (PineNode False 0 1000 1 [0, 100, 1000] [KnownEmpty, Unknown] None None)"
  using C8_recomputation_aborts[where t = scenarioTree and ops = exampleSummaryCtor
      and chromEntry = None and n = cachedNode]
    C8_recomputation_aborts[where t = scenarioTree and ops = exampleSummaryCtor
      and chromEntry = None and n = staleWrapperNode]
  by (simp add: scenarioTree_def cachedNode_def staleWrapperNode_def setSummary_def)

section \<open>Traversal short-circuit\<close>








section \<open>Uncached ranges: the twin queries\<close>

lemma requestedResolution_Some: "requestedResolution a (Some b) = Inr (resolutionOr a b)"
  by (simp add: requestedResolution_def resolutionOr_def truthyNumber_def split: option.splits)

lemma getClosestResolution_pos:
  assumes "1 < scalingFactor t" "1 \<le> leafScalingFactor t"
  shows "0 < getClosestResolution t r"
proof (cases "leafScalingFactor t \<le> r")
  case True
  have "1 \<le> leafScalingFactor t * scalingFactor t ^
          nat \<lfloor>ln (r / leafScalingFactor t) / ln (scalingFactor t)\<rfloor>"
    using assms by (intro ladder_ge_one) auto
  then have "1 \<le> \<lfloor>leafScalingFactor t * scalingFactor t ^
          nat \<lfloor>ln (r / leafScalingFactor t) / ln (scalingFactor t)\<rfloor>\<rfloor>"
    by linarith
  then show ?thesis using getClosestResolution_ge[OF assms True] by simp
next
  case False
  then show ?thesis by (simp add: getClosestResolution_def)
qed

lemma fitResolution_floor_le:
  assumes "0 < c"
  shows "fitResolution (real_of_int v) c (Some floor) \<le> v"
proof -
  have "\<lfloor>real_of_int v / real_of_int c\<rfloor> = v div c" by (rule floor_divide_of_int_eq)
  moreover have "v div c * c \<le> v"
    using assms div_mult_mod_eq[of v c] pos_mod_sign[of c v] by linarith
  ultimately show ?thesis by (simp add: fitResolution_def parseInt_def)
qed

lemma fitResolution_ceiling_ge:
  assumes "0 < c"
  shows "v \<le> fitResolution (real_of_int v) c (Some ceiling)"
proof -
  have "real_of_int v / real_of_int c \<le> real_of_int \<lceil>real_of_int v / real_of_int c\<rceil>"
    by (rule le_of_int_ceiling)
  moreover have "0 < real_of_int c" using assms by simp
  ultimately have "real_of_int v \<le> real_of_int \<lceil>real_of_int v / real_of_int c\<rceil> * real_of_int c"
    by (simp only: pos_divide_le_eq)
  then have "real_of_int v \<le> real_of_int (\<lceil>real_of_int v / real_of_int c\<rceil> * c)" by simp
  then have "v \<le> \<lceil>real_of_int v / real_of_int c\<rceil> * c" by (simp only: of_int_le_iff)
  then show ?thesis by (simp add: fitResolution_def parseInt_def)
qed

lemma rangesWithin_mono: "rangesWithin rs b \<Longrightarrow> b \<le> b' \<Longrightarrow> rangesWithin rs b'"
  by (auto simp: rangesWithin_def list_all_iff)

lemma appendRange_nonempty: "appendRange rs a b c \<noteq> []"
  by (simp add: appendRange_def)

lemma appendRange_within:
  assumes "rangesWithin rs bound" "bound \<le> a" "a < b"
  shows "rangesWithin (appendRange rs a b c) b"
    and "covers (appendRange rs a b c) x \<longleftrightarrow> covers rs x \<or> (a \<le> x \<and> x < b)"
proof -
  let ?new = "\<lparr>cr_start = a, cr_end = b, cr_resolution = Some (real_of_int c), cr_data = None\<rparr>"
  have ends: "\<forall>r\<in>set rs. cr_end r \<le> a" and st: "\<forall>r\<in>set rs. cr_start r < cr_end r"
    and so: "sorted_wrt (\<lambda>a b. cr_end a \<le> cr_start b) rs"
    using assms(1,2) by (auto simp: rangesWithin_def startOrderedDisjoint_def list_all_iff)
  show "rangesWithin (appendRange rs a b c) b"
  proof (cases "rs \<noteq> [] \<and> cr_resolution (last rs) = Some (real_of_int c) \<and> cr_end (last rs) = a")
    case True
    then obtain ys l where rs: "rs = ys @ [l]" by (metis append_butlast_last_id)
    with True have l: "cr_end l = a" by simp
    have "appendRange rs a b c = ys @ [l\<lparr>cr_end := b\<rparr>]"
      using True rs by (simp add: appendRange_def)
    moreover have "rangesWithin (ys @ [l\<lparr>cr_end := b\<rparr>]) b"
      using ends st so assms(3) l unfolding rs
      by (auto simp: rangesWithin_def startOrderedDisjoint_def list_all_iff sorted_wrt_append)
    ultimately show ?thesis by simp
  next
    case False
    then have "appendRange rs a b c = rs @ [?new]" by (auto simp: appendRange_def)
    moreover have "rangesWithin (rs @ [?new]) b"
      using ends st so assms(3)
      by (auto simp: rangesWithin_def startOrderedDisjoint_def list_all_iff sorted_wrt_append)
    ultimately show ?thesis by simp
  qed
  show "covers (appendRange rs a b c) x \<longleftrightarrow> covers rs x \<or> (a \<le> x \<and> x < b)"
  proof (cases "rs \<noteq> [] \<and> cr_resolution (last rs) = Some (real_of_int c) \<and> cr_end (last rs) = a")
    case True
    then obtain ys l where rs: "rs = ys @ [l]" by (metis append_butlast_last_id)
    with True have l: "cr_end l = a" by simp
    have ll: "cr_start l < cr_end l" using st rs by simp
    have "appendRange rs a b c = ys @ [l\<lparr>cr_end := b\<rparr>]"
      using True rs by (simp add: appendRange_def)
    then show ?thesis using l ll assms(3) unfolding rs
      by (auto simp: covers_def list_ex_iff)
  next
    case False
    then have "appendRange rs a b c = rs @ [?new]" by (auto simp: appendRange_def)
    then show ?thesis by (auto simp: covers_def list_ex_iff)
  qed
qed

lemma bucketsInvariant_Nil: "bucketsInvariant ks [] \<longleftrightarrow> (\<exists>k. ks = [k])"
  by (cases ks rule: list.exhaust; cases "tl ks") auto

lemma bucketsInvariant_Cons:
  "bucketsInvariant ks (b # bs) \<longleftrightarrow>
     (\<exists>k0 k1 ks'. ks = k0 # k1 # ks' \<and> k0 < k1
        \<and> (case b of
              Branch c \<Rightarrow> shellInvariant c \<and> k0 \<le> hd (keys c) \<and> last (keys c) \<le> k1
            | _ \<Rightarrow> True)
        \<and> bucketsInvariant (k1 # ks') bs)"
proof (cases ks)
  case Nil
  then show ?thesis by simp
next
  case (Cons k0 ks1)
  then show ?thesis by (cases ks1) auto
qed

lemma bucketsInvariant_nonempty: "bucketsInvariant ks bs \<Longrightarrow> ks \<noteq> []"
  by (cases ks) auto

lemma bucketsInvariant_hd_le_last: "bucketsInvariant ks bs \<Longrightarrow> hd ks \<le> last ks"
proof (induction bs arbitrary: ks)
  case Nil
  then show ?case by (auto simp: bucketsInvariant_Nil)
next
  case (Cons b bs)
  then obtain k0 k1 ks' where ks: "ks = k0 # k1 # ks'" and lt: "k0 < k1"
    and inv: "bucketsInvariant (k1 # ks') bs"
    by (auto simp: bucketsInvariant_Cons)
  from Cons.IH[OF inv] lt show ?case unfolding ks by simp
qed

lemma gapBuckets_before:
  "bucketsInvariant ks bs \<Longrightarrow> x < hd ks \<Longrightarrow> \<not> gapBuckets t rd res ks bs x"
proof (induction bs arbitrary: ks)
  case Nil
  then show ?case by (auto simp: bucketsInvariant_Nil)
next
  case (Cons b bs)
  then obtain k0 k1 ks' where ks: "ks = k0 # k1 # ks'" and lt: "k0 < k1"
    and inv: "bucketsInvariant (k1 # ks') bs"
    by (auto simp: bucketsInvariant_Cons)
  from Cons.prems(2) lt have "x < hd (k1 # ks')" unfolding ks by simp
  from Cons.IH[OF inv this] Cons.prems(2) show ?case unfolding ks by simp
qed

lemma gapBuckets_after:
  "bucketsInvariant ks bs \<Longrightarrow> last ks \<le> x \<Longrightarrow> \<not> gapBuckets t rd res ks bs x"
proof (induction bs arbitrary: ks)
  case Nil
  then show ?case by (auto simp: bucketsInvariant_Nil)
next
  case (Cons b bs)
  then obtain k0 k1 ks' where ks: "ks = k0 # k1 # ks'" and lt: "k0 < k1"
    and inv: "bucketsInvariant (k1 # ks') bs"
    by (auto simp: bucketsInvariant_Cons)
  have "k1 \<le> last (k1 # ks')" using bucketsInvariant_hd_le_last[OF inv] by simp
  with Cons.prems(2) have k1x: "k1 \<le> x" and "last (k1 # ks') \<le> x" unfolding ks by simp_all
  from Cons.IH[OF inv this(2)] k1x show ?case unfolding ks by simp
qed

lemma gapNode_outside:
  assumes "shellInvariant c" "x < hd (keys c) \<or> last (keys c) \<le> x"
  shows "\<not> gapNode t res c x"
proof (cases c)
  case (PineNode ir s e rd ks vs sm scr)
  with assms(1) have inv: "bucketsInvariant ks vs" by simp
  from assms(2) PineNode have "x < hd ks \<or> last ks \<le> x" by simp
  then show ?thesis
    using gapBuckets_before[OF inv] gapBuckets_after[OF inv] PineNode by auto
qed


lemma skipBuckets_props:
  assumes "bucketsInvariant ks bs" "skipBuckets cs ks bs = (ks', bs')"
  shows "bucketsInvariant ks' bs'" and "hd ks \<le> hd ks'" and "last ks' = last ks"
    and "bs' \<noteq> [] \<longrightarrow> cs < hd (tl ks')" and "set bs' \<subseteq> set bs"
    and "cs \<le> x \<longrightarrow> gapBuckets t rd res ks' bs' x = gapBuckets t rd res ks bs x"
  using assms
proof (induction cs ks bs rule: skipBuckets.induct)
  case (1 cs k0 k1 ks v vs)
  {
    case 1
    then show ?case using "1.IH" by (auto split: if_splits)
  next
    case 2
    then show ?case using "1.IH" by (auto split: if_splits)
  next
    case 3
    then show ?case using "1.IH" by (auto split: if_splits)
  next
    case 4
    then show ?case using "1.IH" by (auto split: if_splits)
  next
    case 5
    then show ?case using "1.IH" by (auto split: if_splits)
  next
    case 6
    then show ?case using "1.IH" by (auto split: if_splits)
  }
qed (auto simp: neq_Nil_conv)


lemma rest_first:
  assumes "bucketsInvariant (k1 # ks') bs" "cs < k1"
  shows "bs \<noteq> [] \<longrightarrow> cs < hd (tl (k1 # ks'))"
proof (cases bs)
  case Nil
  then show ?thesis by simp
next
  case (Cons b' bs')
  with assms(1) obtain k2 ks'' where "ks' = k2 # ks''" "k1 < k2"
    by (auto simp: bucketsInvariant_Cons)
  with assms(2) show ?thesis by simp
qed

lemma resultOf_update [simp]: "resultOf (p\<lparr>qp_result := Some r\<rparr>) = r"
  by (simp add: resultOf_def)

lemma loop_ok:
  fixes t :: "'s pineTree"
  assumes tree: "1 < scalingFactor t" "1 \<le> leafScalingFactor t"
    and resq: "resolutionOr (cr_resolution cr) (qp_resolution q) = res"
    and children: "\<forall>c. Branch c \<in> set bs \<longrightarrow> nodeOK t cr q c"
    and inv: "bucketsInvariant ks bs"
    and resp: "resolutionOr (cr_resolution cr) (qp_resolution p) = res"
  shows "\<exists>p' d' h. uncachedLoop t rd res cr ks bs p d = Inr (p', d')
      \<and> qp_resolution p' = qp_resolution p
      \<and> hasUncachedLoop t rd res cr ks bs (Some q) = Inr h
      \<and> ((resultOf p' \<noteq> []) = (resultOf p \<noteq> [] \<or> h))
      \<and> (cr_start cr < cr_end cr \<and> rangesWithin (resultOf p) (hd ks)
           \<and> (bs \<noteq> [] \<longrightarrow> cr_start cr < hd (tl ks)) \<longrightarrow>
           rangesWithin (resultOf p') (last ks)
           \<and> (\<forall>x. cr_start cr \<le> x \<and> x < cr_end cr \<longrightarrow>
                 covers (resultOf p') x
                   = (covers (resultOf p) x \<or> gapBuckets t rd res ks bs x)))"
  using children inv resp
proof (induction bs arbitrary: ks p d)
  case Nil
  then obtain k where ks: "ks = [k]" by (auto simp: bucketsInvariant_Nil)
  show ?case unfolding ks by auto
next
  case (Cons b bs)
  from Cons.prems(2) obtain k0 k1 ks' where ks: "ks = k0 # k1 # ks'" and lt: "k0 < k1"
    and binv: "case b of
              Branch c \<Rightarrow> shellInvariant c \<and> k0 \<le> hd (keys c) \<and> last (keys c) \<le> k1
            | _ \<Rightarrow> True"
    and rinv: "bucketsInvariant (k1 # ks') bs"
    by (auto simp: bucketsInvariant_Cons)
  have rchildren: "\<forall>c. Branch c \<in> set bs \<longrightarrow> nodeOK t cr q c"
    using Cons.prems(1) by simp
  note IH = Cons.IH[OF rchildren rinv]
  have lastks: "last ks = last (k1 # ks')" unfolding ks by simp
  have norest: "\<And>x. x < k1 \<Longrightarrow> \<not> gapBuckets t rd res (k1 # ks') bs x"
    using gapBuckets_before[OF rinv] by simp
  have restpre: "rangesWithin (resultOf p) (hd ks) \<Longrightarrow> rangesWithin (resultOf p) (hd (k1 # ks'))"
    for p :: "'s queryProps"
    using lt rangesWithin_mono unfolding ks by fastforce
  have passcase: ?case
    if pass: "uncachedLoop t rd res cr ks (b # bs) p d
          = uncachedLoop t rd res cr (k1 # ks') bs p d"
        "hasUncachedLoop t rd res cr ks (b # bs) (Some q)
          = hasUncachedLoop t rd res cr (k1 # ks') bs (Some q)"
        "\<And>x. gapBuckets t rd res ks (b # bs) x
          = (\<not> (k0 \<le> x \<and> x < k1) \<and> gapBuckets t rd res (k1 # ks') bs x)"
  proof -
    from IH[OF Cons.prems(3), of d] obtain p' d' h where
      r: "uncachedLoop t rd res cr (k1 # ks') bs p d = Inr (p', d')"
        "qp_resolution p' = qp_resolution p"
        "hasUncachedLoop t rd res cr (k1 # ks') bs (Some q) = Inr h"
        "(resultOf p' \<noteq> []) = (resultOf p \<noteq> [] \<or> h)"
      and o: "cr_start cr < cr_end cr \<and> rangesWithin (resultOf p) (hd (k1 # ks'))
           \<and> (bs \<noteq> [] \<longrightarrow> cr_start cr < hd (tl (k1 # ks'))) \<longrightarrow>
           rangesWithin (resultOf p') (last (k1 # ks'))
           \<and> (\<forall>x. cr_start cr \<le> x \<and> x < cr_end cr \<longrightarrow>
                 covers (resultOf p') x
                   = (covers (resultOf p) x \<or> gapBuckets t rd res (k1 # ks') bs x))"
      by blast
    have ord: "cr_start cr < cr_end cr \<and> rangesWithin (resultOf p) (hd ks)
           \<and> (b # bs \<noteq> [] \<longrightarrow> cr_start cr < hd (tl ks)) \<longrightarrow>
           rangesWithin (resultOf p') (last ks)
           \<and> (\<forall>x. cr_start cr \<le> x \<and> x < cr_end cr \<longrightarrow>
                 covers (resultOf p') x
                   = (covers (resultOf p) x \<or> gapBuckets t rd res ks (b # bs) x))"
    proof (intro impI, elim conjE)
      assume a: "cr_start cr < cr_end cr" "rangesWithin (resultOf p) (hd ks)"
        "b # bs \<noteq> [] \<longrightarrow> cr_start cr < hd (tl ks)"
      then have cs: "cr_start cr < k1" unfolding ks by simp
      from o a(1) restpre[OF a(2)] rest_first[OF rinv cs]
      have o': "rangesWithin (resultOf p') (last (k1 # ks'))"
        "\<forall>x. cr_start cr \<le> x \<and> x < cr_end cr \<longrightarrow>
                 covers (resultOf p') x
                   = (covers (resultOf p) x \<or> gapBuckets t rd res (k1 # ks') bs x)"
        by blast+
      show "rangesWithin (resultOf p') (last ks)
           \<and> (\<forall>x. cr_start cr \<le> x \<and> x < cr_end cr \<longrightarrow>
                 covers (resultOf p') x
                   = (covers (resultOf p) x \<or> gapBuckets t rd res ks (b # bs) x))"
      proof (intro conjI allI impI)
        show "rangesWithin (resultOf p') (last ks)" using o'(1) lastks by simp
      next
        fix x assume x: "cr_start cr \<le> x \<and> x < cr_end cr"
        show "covers (resultOf p') x
            = (covers (resultOf p) x \<or> gapBuckets t rd res ks (b # bs) x)"
        proof (cases "k0 \<le> x \<and> x < k1")
          case True
          then have "\<not> gapBuckets t rd res (k1 # ks') bs x" using norest by simp
          then show ?thesis using o'(2) x pass(3) True by simp
        next
          case False
          then show ?thesis using o'(2) x pass(3) by simp
        qed
      qed
    qed
    show ?thesis using pass(1,2) r ord
      by (intro exI[of _ p'] exI[of _ d'] exI[of _ h]) simp
  qed
  consider (stop) "\<not> k0 < cr_end cr"
    | (branch) c where "k0 < cr_end cr" "\<not> bucketResolutionEnough t rd res b" "b = Branch c"
    | (leaf) l where "k0 < cr_end cr" "\<not> bucketResolutionEnough t rd res b" "b = Leaf l"
    | (gap) "k0 < cr_end cr" "\<not> (bucketPresent b \<and> \<not> bucketResolutionEnough t rd res b)"
        "\<not> bucketHasData b"
    | (full) "k0 < cr_end cr" "\<not> (bucketPresent b \<and> \<not> bucketResolutionEnough t rd res b)"
        "bucketHasData b"
    by (cases b) auto
  then show ?case
  proof cases
    case stop
    have eqU: "uncachedLoop t rd res cr ks (b # bs) p d = Inr (p, d)"
      using stop unfolding ks by simp
    have eqH: "hasUncachedLoop t rd res cr ks (b # bs) (Some q) = Inr False"
      using stop unfolding ks by simp
    have ord: "cr_start cr < cr_end cr \<and> rangesWithin (resultOf p) (hd ks)
           \<and> (b # bs \<noteq> [] \<longrightarrow> cr_start cr < hd (tl ks)) \<longrightarrow>
           rangesWithin (resultOf p) (last ks)
           \<and> (\<forall>x. cr_start cr \<le> x \<and> x < cr_end cr \<longrightarrow>
                 covers (resultOf p) x
                   = (covers (resultOf p) x \<or> gapBuckets t rd res ks (b # bs) x))"
    proof (intro impI, elim conjE, intro conjI allI impI)
      assume "rangesWithin (resultOf p) (hd ks)"
      then show "rangesWithin (resultOf p) (last ks)"
        using rangesWithin_mono bucketsInvariant_hd_le_last[OF Cons.prems(2)] by blast
    next
      fix x assume "cr_start cr \<le> x \<and> x < cr_end cr"
      with stop have "x < hd ks" unfolding ks by simp
      from gapBuckets_before[OF Cons.prems(2) this]
      show "covers (resultOf p) x = (covers (resultOf p) x \<or> gapBuckets t rd res ks (b # bs) x)"
        by simp
    qed
    show ?thesis using eqU eqH ord by (intro exI[of _ p] exI[of _ d] exI[of _ False]) simp
  next
    case full
    show ?thesis by (rule passcase) (use full in \<open>auto simp: ks\<close>)
  next
    case (leaf l)
    show ?thesis by (rule passcase) (use leaf in \<open>auto simp: ks\<close>)
  next
    case gap
    define closest where "closest = getClosestResolution t (res / ratioOf p)"
    define rs where
      "rs = max k0 (fitResolution (real_of_int (cr_start cr)) closest (Some floor))"
    define re where
      "re = min k1 (fitResolution (real_of_int (cr_end cr)) closest (Some ceiling))"
    define p1 where "p1 = p\<lparr>qp_result := Some (appendRange (resultOf p) rs re closest)\<rparr>"
    have pos: "0 < closest" unfolding closest_def by (rule getClosestResolution_pos[OF tree])
    have lo: "fitResolution (real_of_int (cr_start cr)) closest (Some floor) \<le> cr_start cr"
      by (rule fitResolution_floor_le[OF pos])
    have hi: "cr_end cr \<le> fitResolution (real_of_int (cr_end cr)) closest (Some ceiling)"
      by (rule fitResolution_ceiling_ge[OF pos])
    have eqU: "uncachedLoop t rd res cr ks (b # bs) p d
        = uncachedLoop t rd res cr (k1 # ks') bs p1 d"
      using gap unfolding ks p1_def rs_def re_def closest_def by (auto simp: Let_def)
    have eqH: "hasUncachedLoop t rd res cr ks (b # bs) (Some q) = Inr True"
      using gap unfolding ks by auto
    have gb: "\<And>x. gapBuckets t rd res ks (b # bs) x
        = ((k0 \<le> x \<and> x < k1) \<or> gapBuckets t rd res (k1 # ks') bs x)"
      using gap unfolding ks by auto
    have r1: "resultOf p1 = appendRange (resultOf p) rs re closest"
      and q1: "qp_resolution p1 = qp_resolution p"
      unfolding p1_def by simp_all
    have resp1: "resolutionOr (cr_resolution cr) (qp_resolution p1) = res"
      using Cons.prems(3) q1 by simp
    from IH[OF resp1, of d] obtain p' d' h where
      r: "uncachedLoop t rd res cr (k1 # ks') bs p1 d = Inr (p', d')"
        "qp_resolution p' = qp_resolution p1"
        "hasUncachedLoop t rd res cr (k1 # ks') bs (Some q) = Inr h"
        "(resultOf p' \<noteq> []) = (resultOf p1 \<noteq> [] \<or> h)"
      and o: "cr_start cr < cr_end cr \<and> rangesWithin (resultOf p1) (hd (k1 # ks'))
           \<and> (bs \<noteq> [] \<longrightarrow> cr_start cr < hd (tl (k1 # ks'))) \<longrightarrow>
           rangesWithin (resultOf p') (last (k1 # ks'))
           \<and> (\<forall>x. cr_start cr \<le> x \<and> x < cr_end cr \<longrightarrow>
                 covers (resultOf p') x
                   = (covers (resultOf p1) x \<or> gapBuckets t rd res (k1 # ks') bs x))"
      by blast
    have "resultOf p1 \<noteq> []" unfolding r1 by (rule appendRange_nonempty)
    then have ne: "resultOf p' \<noteq> []" using r(4) by blast
    have ord: "cr_start cr < cr_end cr \<and> rangesWithin (resultOf p) (hd ks)
           \<and> (b # bs \<noteq> [] \<longrightarrow> cr_start cr < hd (tl ks)) \<longrightarrow>
           rangesWithin (resultOf p') (last ks)
           \<and> (\<forall>x. cr_start cr \<le> x \<and> x < cr_end cr \<longrightarrow>
                 covers (resultOf p') x
                   = (covers (resultOf p) x \<or> gapBuckets t rd res ks (b # bs) x))"
    proof (intro impI, elim conjE)
      assume a: "cr_start cr < cr_end cr" "rangesWithin (resultOf p) (hd ks)"
        "b # bs \<noteq> [] \<longrightarrow> cr_start cr < hd (tl ks)"
      then have cs: "cr_start cr < k1" unfolding ks by simp
      have a2: "rangesWithin (resultOf p) k0" using a(2) unfolding ks by simp
      have b1: "k0 \<le> rs" unfolding rs_def by simp
      have b2: "rs < re" unfolding rs_def re_def using lt gap(1) lo hi cs a(1) by simp
      have b3: "re \<le> k1" unfolding re_def by simp
      have w1: "rangesWithin (resultOf p1) (hd (k1 # ks'))"
        using appendRange_within(1)[OF a2 b1 b2, of closest] b3 rangesWithin_mono
        unfolding r1 by fastforce
      have c1: "\<And>x. covers (resultOf p1) x = (covers (resultOf p) x \<or> (rs \<le> x \<and> x < re))"
        unfolding r1 by (rule appendRange_within(2)[OF a2 b1 b2])
      have c2: "\<And>x. cr_start cr \<le> x \<and> x < cr_end cr \<Longrightarrow>
          (rs \<le> x \<and> x < re) = (k0 \<le> x \<and> x < k1)"
        unfolding rs_def re_def using lo hi by auto
      from o a(1) w1 rest_first[OF rinv cs]
      have o': "rangesWithin (resultOf p') (last (k1 # ks'))"
        "\<forall>x. cr_start cr \<le> x \<and> x < cr_end cr \<longrightarrow>
                 covers (resultOf p') x
                   = (covers (resultOf p1) x \<or> gapBuckets t rd res (k1 # ks') bs x)"
        by blast+
      show "rangesWithin (resultOf p') (last ks)
           \<and> (\<forall>x. cr_start cr \<le> x \<and> x < cr_end cr \<longrightarrow>
                 covers (resultOf p') x
                   = (covers (resultOf p) x \<or> gapBuckets t rd res ks (b # bs) x))"
      proof (intro conjI allI impI)
        show "rangesWithin (resultOf p') (last ks)" using o'(1) lastks by simp
      next
        fix x assume x: "cr_start cr \<le> x \<and> x < cr_end cr"
        show "covers (resultOf p') x
            = (covers (resultOf p) x \<or> gapBuckets t rd res ks (b # bs) x)"
          using o'(2) x c1[of x] c2[OF x] gb[of x] by blast
      qed
    qed
    show ?thesis using eqU eqH r(1,2) q1 ne ord
      by (intro exI[of _ p'] exI[of _ d'] exI[of _ True]) simp
  next
    case (branch c)
    from binv branch(3) have cinv: "shellInvariant c" and clo: "k0 \<le> hd (keys c)"
      and chi: "last (keys c) \<le> k1" by simp_all
    have "nodeOK t cr q c" using Cons.prems(1) branch(3) by simp
    then have "\<forall>p d. resolutionOr (cr_resolution cr) (qp_resolution p) = res \<longrightarrow>
        (\<exists>p' d' h.
           getUncachedRange t c (Some cr) (Some p) d = Inr (p', d')
           \<and> qp_resolution p' = qp_resolution p
           \<and> hasUncachedRange t c (Some cr) (Some q) = Inr h
           \<and> ((resultOf p' \<noteq> []) = (resultOf p \<noteq> [] \<or> h))
           \<and> (cr_start cr < cr_end cr \<and> rangesWithin (resultOf p) (hd (keys c)) \<longrightarrow>
                rangesWithin (resultOf p') (last (keys c))
                \<and> (\<forall>x. cr_start cr \<le> x \<and> x < cr_end cr \<longrightarrow>
                      covers (resultOf p') x
                        = (covers (resultOf p) x \<or> gapNode t res c x))))"
      using cinv unfolding nodeOK_def resq by simp
    from this[rule_format, OF Cons.prems(3), of d] obtain p1 d1 hc where
      g: "getUncachedRange t c (Some cr) (Some p) d = Inr (p1, d1)"
        "qp_resolution p1 = qp_resolution p"
        "hasUncachedRange t c (Some cr) (Some q) = Inr hc"
        "(resultOf p1 \<noteq> []) = (resultOf p \<noteq> [] \<or> hc)"
      and oc: "cr_start cr < cr_end cr \<and> rangesWithin (resultOf p) (hd (keys c)) \<longrightarrow>
                rangesWithin (resultOf p1) (last (keys c))
                \<and> (\<forall>x. cr_start cr \<le> x \<and> x < cr_end cr \<longrightarrow>
                      covers (resultOf p1) x
                        = (covers (resultOf p) x \<or> gapNode t res c x))"
      by blast
    have eqU: "uncachedLoop t rd res cr ks (b # bs) p d
        = uncachedLoop t rd res cr (k1 # ks') bs p1 d1"
      using branch g(1) unfolding ks by simp
    have eqH: "hasUncachedLoop t rd res cr ks (b # bs) (Some q)
        = (if hc then Inr True else hasUncachedLoop t rd res cr (k1 # ks') bs (Some q))"
      using branch g(3) unfolding ks by simp
    have gb: "\<And>x. gapBuckets t rd res ks (b # bs) x
        = (if k0 \<le> x \<and> x < k1 then gapNode t res c x
           else gapBuckets t rd res (k1 # ks') bs x)"
      using branch unfolding ks by auto
    have resp1: "resolutionOr (cr_resolution cr) (qp_resolution p1) = res"
      using Cons.prems(3) g(2) by simp
    from IH[OF resp1, of d1] obtain p' d' h where
      r: "uncachedLoop t rd res cr (k1 # ks') bs p1 d1 = Inr (p', d')"
        "qp_resolution p' = qp_resolution p1"
        "hasUncachedLoop t rd res cr (k1 # ks') bs (Some q) = Inr h"
        "(resultOf p' \<noteq> []) = (resultOf p1 \<noteq> [] \<or> h)"
      and o: "cr_start cr < cr_end cr \<and> rangesWithin (resultOf p1) (hd (k1 # ks'))
           \<and> (bs \<noteq> [] \<longrightarrow> cr_start cr < hd (tl (k1 # ks'))) \<longrightarrow>
           rangesWithin (resultOf p') (last (k1 # ks'))
           \<and> (\<forall>x. cr_start cr \<le> x \<and> x < cr_end cr \<longrightarrow>
                 covers (resultOf p') x
                   = (covers (resultOf p1) x \<or> gapBuckets t rd res (k1 # ks') bs x))"
      by blast
    have eqH': "hasUncachedLoop t rd res cr ks (b # bs) (Some q) = Inr (hc \<or> h)"
      using eqH r(3) by simp
    have ne: "(resultOf p' \<noteq> []) = (resultOf p \<noteq> [] \<or> (hc \<or> h))"
      using r(4) g(4) by blast
    have ord: "cr_start cr < cr_end cr \<and> rangesWithin (resultOf p) (hd ks)
           \<and> (b # bs \<noteq> [] \<longrightarrow> cr_start cr < hd (tl ks)) \<longrightarrow>
           rangesWithin (resultOf p') (last ks)
           \<and> (\<forall>x. cr_start cr \<le> x \<and> x < cr_end cr \<longrightarrow>
                 covers (resultOf p') x
                   = (covers (resultOf p) x \<or> gapBuckets t rd res ks (b # bs) x))"
    proof (intro impI, elim conjE)
      assume a: "cr_start cr < cr_end cr" "rangesWithin (resultOf p) (hd ks)"
        "b # bs \<noteq> [] \<longrightarrow> cr_start cr < hd (tl ks)"
      then have cs: "cr_start cr < k1" unfolding ks by simp
      have a2: "rangesWithin (resultOf p) (hd (keys c))"
        using a(2) clo rangesWithin_mono unfolding ks by fastforce
      from oc a(1) a2 have oc': "rangesWithin (resultOf p1) (last (keys c))"
        "\<forall>x. cr_start cr \<le> x \<and> x < cr_end cr \<longrightarrow>
                      covers (resultOf p1) x
                        = (covers (resultOf p) x \<or> gapNode t res c x)"
        by blast+
      have w1: "rangesWithin (resultOf p1) (hd (k1 # ks'))"
        using oc'(1) chi rangesWithin_mono by fastforce
      from o a(1) w1 rest_first[OF rinv cs]
      have o': "rangesWithin (resultOf p') (last (k1 # ks'))"
        "\<forall>x. cr_start cr \<le> x \<and> x < cr_end cr \<longrightarrow>
                 covers (resultOf p') x
                   = (covers (resultOf p1) x \<or> gapBuckets t rd res (k1 # ks') bs x)"
        by blast+
      have out: "\<And>x. \<not> (k0 \<le> x \<and> x < k1) \<Longrightarrow> \<not> gapNode t res c x"
      proof -
        fix x assume "\<not> (k0 \<le> x \<and> x < k1)"
        then have "x < hd (keys c) \<or> last (keys c) \<le> x" using clo chi by linarith
        then show "\<not> gapNode t res c x" by (rule gapNode_outside[OF cinv])
      qed
      show "rangesWithin (resultOf p') (last ks)
           \<and> (\<forall>x. cr_start cr \<le> x \<and> x < cr_end cr \<longrightarrow>
                 covers (resultOf p') x
                   = (covers (resultOf p) x \<or> gapBuckets t rd res ks (b # bs) x))"
      proof (intro conjI allI impI)
        show "rangesWithin (resultOf p') (last ks)" using o'(1) lastks by simp
      next
        fix x assume x: "cr_start cr \<le> x \<and> x < cr_end cr"
        show "covers (resultOf p') x
            = (covers (resultOf p) x \<or> gapBuckets t rd res ks (b # bs) x)"
        proof (cases "k0 \<le> x \<and> x < k1")
          case True
          then have "\<not> gapBuckets t rd res (k1 # ks') bs x" using norest by simp
          then show ?thesis using o'(2) oc'(2) x gb[of x] True by simp
        next
          case False
          then have "\<not> gapNode t res c x" by (rule out)
          then show ?thesis using o'(2) oc'(2) x gb[of x] False by simp
        qed
      qed
    qed
    show ?thesis using eqU eqH' r(1,2) g(2) ne ord
      by (intro exI[of _ p'] exI[of _ d'] exI[of _ "hc \<or> h"]) simp
  qed
qed


lemma normaliseQueryProps_facts:
  assumes "normaliseQueryProps p d = (pn, dn)"
  shows "resultOf pn = resultOf p" and "qp_resolution pn = qp_resolution p"
  using assms by (auto simp: normaliseQueryProps_def resultOf_def Let_def split: if_splits)

lemma nodeOK_all:
  fixes t :: "'s pineTree"
  assumes tree: "1 < scalingFactor t" "1 \<le> leafScalingFactor t"
  shows "nodeOK t cr q n"
proof (induction n rule: pineNode.induct[where ?P1.0 = "\<lambda>b. \<forall>c. b = Branch c \<longrightarrow> nodeOK t cr q c"])
  case (PineNode ir s e rd ks vs sm scr)
  define res where "res = resolutionOr (cr_resolution cr) (qp_resolution q)"
  show ?case unfolding nodeOK_def
  proof (intro impI allI)
    fix p :: "'s queryProps" and d
    assume sh: "shellInvariant (PineNode ir s e rd ks vs sm scr)"
      and resp0: "resolutionOr (cr_resolution cr) (qp_resolution p)
               = resolutionOr (cr_resolution cr) (qp_resolution q)"
    from sh have inv: "bucketsInvariant ks vs" by simp
    obtain pn dn where norm: "normaliseQueryProps p d = (pn, dn)" by fastforce
    note nf = normaliseQueryProps_facts[OF norm]
    obtain ks' vs' where skip: "skipBuckets (cr_start cr) ks vs = (ks', vs')" by fastforce
    note sp = skipBuckets_props[OF inv skip]
    have children: "\<forall>c. Branch c \<in> set vs' \<longrightarrow> nodeOK t cr q c"
      using PineNode sp(5) by blast
    have resp: "resolutionOr (cr_resolution cr) (qp_resolution pn) = res"
      using resp0 nf(2) res_def by simp
    from loop_ok[OF tree res_def[symmetric] children sp(1) resp, of rd dn]
    obtain p' d' h where
      r: "uncachedLoop t rd res cr ks' vs' pn dn = Inr (p', d')"
        "qp_resolution p' = qp_resolution pn"
        "hasUncachedLoop t rd res cr ks' vs' (Some q) = Inr h"
        "(resultOf p' \<noteq> []) = (resultOf pn \<noteq> [] \<or> h)"
      and o: "cr_start cr < cr_end cr \<and> rangesWithin (resultOf pn) (hd ks')
           \<and> (vs' \<noteq> [] \<longrightarrow> cr_start cr < hd (tl ks')) \<longrightarrow>
           rangesWithin (resultOf p') (last ks')
           \<and> (\<forall>x. cr_start cr \<le> x \<and> x < cr_end cr \<longrightarrow>
                 covers (resultOf p') x
                   = (covers (resultOf pn) x \<or> gapBuckets t rd res ks' vs' x))"
      by blast
    have eqU: "getUncachedRange t (PineNode ir s e rd ks vs sm scr) (Some cr) (Some p) d
        = Inr (p', d')"
      using norm skip r(1) resp0 res_def by simp
    have eqH: "hasUncachedRange t (PineNode ir s e rd ks vs sm scr) (Some cr) (Some q) = Inr h"
      using skip r(3) res_def by (simp add: requestedResolution_Some)
    have ord: "cr_start cr < cr_end cr
          \<and> rangesWithin (resultOf p) (hd (keys (PineNode ir s e rd ks vs sm scr))) \<longrightarrow>
          rangesWithin (resultOf p') (last (keys (PineNode ir s e rd ks vs sm scr)))
          \<and> (\<forall>x. cr_start cr \<le> x \<and> x < cr_end cr \<longrightarrow>
                covers (resultOf p') x
                  = (covers (resultOf p) x
                     \<or> gapNode t (resolutionOr (cr_resolution cr) (qp_resolution q))
                          (PineNode ir s e rd ks vs sm scr) x))"
    proof (intro impI, elim conjE)
      assume a: "cr_start cr < cr_end cr"
        "rangesWithin (resultOf p) (hd (keys (PineNode ir s e rd ks vs sm scr)))"
      have "rangesWithin (resultOf pn) (hd ks')"
        using a(2) sp(2) nf(1) rangesWithin_mono by fastforce
      with o a(1) sp(4)
      have o': "rangesWithin (resultOf p') (last ks')"
        "\<forall>x. cr_start cr \<le> x \<and> x < cr_end cr \<longrightarrow>
                 covers (resultOf p') x
                   = (covers (resultOf pn) x \<or> gapBuckets t rd res ks' vs' x)"
        by blast+
      show "rangesWithin (resultOf p') (last (keys (PineNode ir s e rd ks vs sm scr)))
          \<and> (\<forall>x. cr_start cr \<le> x \<and> x < cr_end cr \<longrightarrow>
                covers (resultOf p') x
                  = (covers (resultOf p) x
                     \<or> gapNode t (resolutionOr (cr_resolution cr) (qp_resolution q))
                          (PineNode ir s e rd ks vs sm scr) x))"
        using o' sp(3) sp(6)[of _ t rd res] nf(1) res_def by simp
    qed
    show "\<exists>p' d' h.
           getUncachedRange t (PineNode ir s e rd ks vs sm scr) (Some cr) (Some p) d = Inr (p', d')
           \<and> qp_resolution p' = qp_resolution p
           \<and> hasUncachedRange t (PineNode ir s e rd ks vs sm scr) (Some cr) (Some q) = Inr h
           \<and> ((resultOf p' \<noteq> []) = (resultOf p \<noteq> [] \<or> h))
           \<and> (cr_start cr < cr_end cr
                \<and> rangesWithin (resultOf p) (hd (keys (PineNode ir s e rd ks vs sm scr))) \<longrightarrow>
                rangesWithin (resultOf p') (last (keys (PineNode ir s e rd ks vs sm scr)))
                \<and> (\<forall>x. cr_start cr \<le> x \<and> x < cr_end cr \<longrightarrow>
                      covers (resultOf p') x
                        = (covers (resultOf p) x
                           \<or> gapNode t (resolutionOr (cr_resolution cr) (qp_resolution q))
                                (PineNode ir s e rd ks vs sm scr) x)))"
      using eqU eqH r(2,4) nf ord
      by (intro exI[of _ p'] exI[of _ d'] exI[of _ h]) simp
  qed
qed simp_all


lemma hasUncachedLoop_past:
  assumes "x < k1"
  shows "hasUncachedLoop t rd res (pointQuery cr x) (k1 # ks) bs props = Inr False"
  using assms by (cases bs) (simp_all add: pointQuery_def)

lemma point_loop:
  assumes children: "\<forall>c. Branch c \<in> set bs \<longrightarrow> pointOK t cr q c"
    and resq: "resolutionOr (cr_resolution cr) (qp_resolution q) = res"
    and inv: "bucketsInvariant ks bs"
  shows "(case skipBuckets x ks bs of
            (ks', bs') \<Rightarrow> hasUncachedLoop t rd res (pointQuery cr x) ks' bs' (Some q))
         = Inr (gapBuckets t rd res ks bs x)"
  using children inv
proof (induction bs arbitrary: ks)
  case Nil
  then obtain k where ks: "ks = [k]" by (auto simp: bucketsInvariant_Nil)
  show ?case unfolding ks by simp
next
  case (Cons b bs)
  from Cons.prems(2) obtain k0 k1 ks' where ks: "ks = k0 # k1 # ks'" and lt: "k0 < k1"
    and binv: "case b of
              Branch c \<Rightarrow> shellInvariant c \<and> k0 \<le> hd (keys c) \<and> last (keys c) \<le> k1
            | _ \<Rightarrow> True"
    and rinv: "bucketsInvariant (k1 # ks') bs"
    by (auto simp: bucketsInvariant_Cons)
  have rchildren: "\<forall>c. Branch c \<in> set bs \<longrightarrow> pointOK t cr q c"
    using Cons.prems(1) by simp
  note IH = Cons.IH[OF rchildren rinv]
  have norest: "x < k1 \<Longrightarrow> \<not> gapBuckets t rd res (k1 # ks') bs x"
    using gapBuckets_before[OF rinv] by simp
  consider (skip) "k1 \<le> x" | (before) "x < k0" | (inside) "k0 \<le> x" "x < k1"
    by linarith
  then show ?case
  proof cases
    case skip
    then show ?thesis using IH lt unfolding ks by simp
  next
    case before
    then show ?thesis using lt norest unfolding ks by (simp add: pointQuery_def)
  next
    case inside
    note past = hasUncachedLoop_past[OF inside(2), of t rd res cr ks' bs "Some q"]
    show ?thesis
    proof (cases b)
      case Unknown
      then show ?thesis using inside unfolding ks by (simp add: pointQuery_def)
    next
      case KnownEmpty
      then show ?thesis using inside past unfolding ks by (simp add: pointQuery_def)
    next
      case (Leaf l)
      then show ?thesis using inside past unfolding ks
        by (simp add: pointQuery_def leafHasData_def)
    next
      case (Branch c)
      with binv have cinv: "shellInvariant c" by simp
      have "pointOK t cr q c" using Cons.prems(1) Branch by simp
      with cinv resq have hc: "hasUncachedRange t c (Some (pointQuery cr x)) (Some q)
          = Inr (gapNode t res c x)"
        unfolding pointOK_def by simp
      have cq: "cr_end (pointQuery cr x) = x + 1" by (simp add: pointQuery_def)
      show ?thesis
      proof (cases "bucketResolutionEnough t rd res b")
        case True
        then show ?thesis using inside past Branch unfolding ks
          by (simp add: cq)
      next
        case False
        then show ?thesis using inside past Branch hc unfolding ks
          by (simp add: cq)
      qed
    qed
  qed
qed

lemma pointOK_all: "pointOK t cr q n"
proof (induction n rule: pineNode.induct[where ?P1.0 = "\<lambda>b. \<forall>c. b = Branch c \<longrightarrow> pointOK t cr q c"])
  case (PineNode ir s e rd ks vs sm scr)
  show ?case unfolding pointOK_def
  proof (intro impI allI)
    fix x
    assume "shellInvariant (PineNode ir s e rd ks vs sm scr)"
    then have inv: "bucketsInvariant ks vs" by simp
    have children: "\<forall>c. Branch c \<in> set vs \<longrightarrow> pointOK t cr q c" using PineNode by blast
    have "cr_start (pointQuery cr x) = x" "cr_resolution (pointQuery cr x) = cr_resolution cr"
      by (simp_all add: pointQuery_def)
    then show "hasUncachedRange t (PineNode ir s e rd ks vs sm scr) (Some (pointQuery cr x)) (Some q)
        = Inr (gapNode t (resolutionOr (cr_resolution cr) (qp_resolution q))
                 (PineNode ir s e rd ks vs sm scr) x)"
      using point_loop[OF children refl inv, where x = x and rd = rd]
      by (simp add: requestedResolution_Some split: prod.splits)
  qed
qed simp_all


lemma scenario_closest: "getClosestResolution scenarioTree 1 = 1"
  by (simp add: getClosestResolution_def scenarioTree_def)

lemma scenario_factors:
  "scalingFactor scenarioTree = 10" "leafScalingFactor scenarioTree = 100"
  "SummaryCtor scenarioTree = Some exampleSummaryCtor"
  by (simp_all add: scenarioTree_def)

text \<open>
  C3, as stated, holds for every \<open>props\<close>.  \<open>props._result\<close> may carry the
  ranges of an earlier query, which \<open>getUncachedRange\<close> keeps in front of its
  own: over a node that is confirmed empty \<open>hasUncachedRange\<close> is false while
  the returned list is not empty, and over an unknown node the returned list
  is not start-ordered.
\<close>

theorem C3_carried_result_counterexample:
  "hasUncachedRange scenarioTree emptyNode (Some queryRange) (Some carriedProps) = Inr False
   \<and> getUncachedRange scenarioTree emptyNode (Some queryRange) (Some carriedProps) []
       = Inr (carriedProps\<lparr>qp_bufferingRatio := Some 1\<rparr>, [])
   \<and> resultOf (carriedProps\<lparr>qp_bufferingRatio := Some 1\<rparr>) \<noteq> []
   \<and> getUncachedRange scenarioTree unknownNode (Some queryRange) (Some carriedProps) []
       = Inr (carriedProps\<lparr>qp_bufferingRatio := Some 1,
                qp_result := Some [\<lparr>cr_start = 5000, cr_end = 6000, cr_resolution = Some 1,
                                      cr_data = None\<rparr>,
                                   \<lparr>cr_start = 0, cr_end = 1000, cr_resolution = Some 1,
                                      cr_data = None\<rparr>]\<rparr>, [])
   \<and> \<not> startOrderedDisjoint
         [\<lparr>cr_start = 5000, cr_end = 6000, cr_resolution = Some 1, cr_data = None :: nat option\<rparr>,
          \<lparr>cr_start = 0, cr_end = 1000, cr_resolution = Some 1, cr_data = None\<rparr>]"
  by (simp add: emptyNode_def unknownNode_def queryRange_def carriedProps_def
      requestedResolution_def truthyNumber_def resolutionOr_def normaliseQueryProps_def
      bucketResolutionEnough_def resultOf_def ratioOf_def scenario_closest appendRange_def
      fitResolution_def parseInt_def startOrderedDisjoint_def)

text \<open>
  C3 (amended): for a tree with \<open>scalingFactor > 1\<close> and
  \<open>leafScalingFactor \<ge> 1\<close>, a node that satisfies the shell's invariant, any
  range and resolution, and props whose \<open>_result\<close> is absent or empty, both
  calls return, and \<open>hasUncachedRange\<close> is true exactly when the list of
  \<open>getUncachedRange\<close> is not empty; for a non-empty range the list is
  start-ordered and disjoint, and a coordinate of the range lies in one of
  the listed ranges exactly when \<open>hasUncachedRange\<close>, asked about that
  coordinate alone, reports true.
\<close>

theorem C3_uncached_twins:
  fixes t :: "'s pineTree"
  assumes "1 < scalingFactor t" and "1 \<le> leafScalingFactor t"
    and "shellInvariant n" and "resultOf p = []"
  shows "\<exists>p' d' h. getUncachedRange t n (Some cr) (Some p) d = Inr (p', d')
      \<and> hasUncachedRange t n (Some cr) (Some p) = Inr h
      \<and> (h \<longleftrightarrow> resultOf p' \<noteq> [])
      \<and> (cr_start cr < cr_end cr \<longrightarrow>
           startOrderedDisjoint (resultOf p')
           \<and> (\<forall>x. cr_start cr \<le> x \<and> x < cr_end cr \<longrightarrow>
                 (covers (resultOf p') x \<longleftrightarrow>
                   hasUncachedRange t n (Some (pointQuery cr x)) (Some p) = Inr True)))"
proof -
  have pre: "rangesWithin (resultOf p) (hd (keys n))"
    using assms(4) by (simp add: rangesWithin_def startOrderedDisjoint_def)
  have nocover: "\<And>x. \<not> covers (resultOf p) x" using assms(4) by (simp add: covers_def)
  from nodeOK_all[OF assms(1,2), of cr p n] assms(3)
  have "\<forall>pa d. resolutionOr (cr_resolution cr) (qp_resolution pa)
               = resolutionOr (cr_resolution cr) (qp_resolution p) \<longrightarrow>
        (\<exists>p' d' h.
           getUncachedRange t n (Some cr) (Some pa) d = Inr (p', d')
           \<and> qp_resolution p' = qp_resolution pa
           \<and> hasUncachedRange t n (Some cr) (Some p) = Inr h
           \<and> ((resultOf p' \<noteq> []) = (resultOf pa \<noteq> [] \<or> h))
           \<and> (cr_start cr < cr_end cr \<and> rangesWithin (resultOf pa) (hd (keys n)) \<longrightarrow>
                rangesWithin (resultOf p') (last (keys n))
                \<and> (\<forall>x. cr_start cr \<le> x \<and> x < cr_end cr \<longrightarrow>
                      covers (resultOf p') x
                        = (covers (resultOf pa) x
                           \<or> gapNode t (resolutionOr (cr_resolution cr) (qp_resolution p)) n x))))"
    unfolding nodeOK_def by simp
  from this[rule_format, OF refl, of d] obtain p' d' h where
    r: "getUncachedRange t n (Some cr) (Some p) d = Inr (p', d')"
      "hasUncachedRange t n (Some cr) (Some p) = Inr h"
      "(resultOf p' \<noteq> []) = (resultOf p \<noteq> [] \<or> h)"
    and o: "cr_start cr < cr_end cr \<and> rangesWithin (resultOf p) (hd (keys n)) \<longrightarrow>
                rangesWithin (resultOf p') (last (keys n))
                \<and> (\<forall>x. cr_start cr \<le> x \<and> x < cr_end cr \<longrightarrow>
                      covers (resultOf p') x
                        = (covers (resultOf p) x
                           \<or> gapNode t (resolutionOr (cr_resolution cr) (qp_resolution p)) n x))"
    by blast
  have pt: "\<And>x. hasUncachedRange t n (Some (pointQuery cr x)) (Some p)
      = Inr (gapNode t (resolutionOr (cr_resolution cr) (qp_resolution p)) n x)"
    using pointOK_all[of t cr p n] assms(3) unfolding pointOK_def by simp
  have ord: "cr_start cr < cr_end cr \<longrightarrow>
           startOrderedDisjoint (resultOf p')
           \<and> (\<forall>x. cr_start cr \<le> x \<and> x < cr_end cr \<longrightarrow>
                 (covers (resultOf p') x \<longleftrightarrow>
                   hasUncachedRange t n (Some (pointQuery cr x)) (Some p) = Inr True))"
  proof (intro impI)
    assume a: "cr_start cr < cr_end cr"
    with o pre have o': "rangesWithin (resultOf p') (last (keys n))"
      "\<forall>x. cr_start cr \<le> x \<and> x < cr_end cr \<longrightarrow>
                      covers (resultOf p') x
                        = (covers (resultOf p) x
                           \<or> gapNode t (resolutionOr (cr_resolution cr) (qp_resolution p)) n x)"
      by blast+
    show "startOrderedDisjoint (resultOf p')
           \<and> (\<forall>x. cr_start cr \<le> x \<and> x < cr_end cr \<longrightarrow>
                 (covers (resultOf p') x \<longleftrightarrow>
                   hasUncachedRange t n (Some (pointQuery cr x)) (Some p) = Inr True))"
      using o' nocover pt by (simp add: rangesWithin_def)
  qed
  show ?thesis using r assms(4) ord
    by (intro exI[of _ p'] exI[of _ d'] exI[of _ h]) simp
qed

theorem C3_uncached_twins_witness:
  "getUncachedRange scenarioTree scenarioMidNode (Some queryRange) (Some freshProps) []
     = Inr (\<lparr>qp_resolution = None, qp_bufferingRatio = Some 1,
             qp_result = Some [\<lparr>cr_start = 0, cr_end = 500, cr_resolution = Some 1,
                                  cr_data = None\<rparr>,
                               \<lparr>cr_start = 600, cr_end = 1000, cr_resolution = Some 1,
                                  cr_data = None\<rparr>]\<rparr>, [])
   \<and> hasUncachedRange scenarioTree scenarioMidNode (Some queryRange) (Some freshProps) = Inr True
   \<and> hasUncachedRange scenarioTree scenarioMidNode (Some (pointQuery queryRange 100))
        (Some freshProps) = Inr True
   \<and> hasUncachedRange scenarioTree scenarioMidNode (Some (pointQuery queryRange 550))
        (Some freshProps) = Inr False"
proof -
  have hyp: "1 < scalingFactor scenarioTree" "1 \<le> leafScalingFactor scenarioTree"
    "shellInvariant scenarioMidNode" "resultOf freshProps = []"
    by (simp_all add: scenarioTree_def scenarioMidNode_def scenarioLeafNode_def
        freshProps_def resultOf_def)
  have ev: "getUncachedRange scenarioTree scenarioMidNode (Some queryRange) (Some freshProps) []
     = Inr (\<lparr>qp_resolution = None, qp_bufferingRatio = Some 1,
             qp_result = Some [\<lparr>cr_start = 0, cr_end = 500, cr_resolution = Some 1,
                                  cr_data = None\<rparr>,
                               \<lparr>cr_start = 600, cr_end = 1000, cr_resolution = Some 1,
                                  cr_data = None\<rparr>]\<rparr>, [])
   \<and> hasUncachedRange scenarioTree scenarioMidNode (Some queryRange) (Some freshProps) = Inr True
   \<and> hasUncachedRange scenarioTree scenarioMidNode (Some (pointQuery queryRange 100))
        (Some freshProps) = Inr True
   \<and> hasUncachedRange scenarioTree scenarioMidNode (Some (pointQuery queryRange 550))
        (Some freshProps) = Inr False"
    by (simp add: scenarioMidNode_def scenarioLeafNode_def queryRange_def freshProps_def
      requestedResolution_def truthyNumber_def resolutionOr_def normaliseQueryProps_def
      bucketResolutionEnough_def resultOf_def ratioOf_def scenario_closest appendRange_def
      fitResolution_def parseInt_def pointQuery_def hasData_def leafHasData_def
      resolution_def getResolutionAtDepth_def scenario_factors Let_def)
  show ?thesis
    using C3_uncached_twins[OF hyp, of queryRange "[]"] ev by blast
qed

section \<open>Uncached ranges: the buffering ratio\<close>












lemma scenario_resolution_0: "getResolutionAtDepth scenarioTree 0 = 100"
  by (simp add: getResolutionAtDepth_def scenarioTree_def parseInt_def)




section \<open>Insertion at a sufficient resolution\<close>

lemma dropWhile_sorted_filter:
  "sorted (map f xs) \<Longrightarrow> dropWhile (\<lambda>e. a > f e) xs = filter (\<lambda>e. a \<le> f e) xs"
proof (induction xs)
  case Nil
  then show ?case by simp
next
  case (Cons x xs)
  show ?case
  proof (cases "a > f x")
    case True
    then show ?thesis using Cons by simp
  next
    case False
    then have "\<forall>y\<in>set xs. a \<le> f y" using Cons.prems by auto
    then have "filter (\<lambda>e. a \<le> f e) xs = xs" by (simp add: filter_id_conv)
    then show ?thesis using False by simp
  qed
qed

lemma insertRange_Some: "insertRange (DataArray ds) (Some cr) = Inr cr"
  by (simp add: insertRange_def split: list.splits)

lemma insertRange_single: "insertRange (DataArray [e]) None = Inr e"
  by (simp add: insertRange_def)

lemma insert_sufficient:
  assumes "resolutionEnough t n (Some (resolutionOr (cr_resolution cr) (ip_resolution props)))"
  shows "insert (Suc fuel) t n (DataArray ds) (Some cr) props
     = finishInsert t (Some (insertSummary t n (Some ds) props))"
  using assms by (simp add: insertRange_Some arrayOf_def)

lemma updateSummary_installed:
  "SummaryCtor t = Some ops \<Longrightarrow> extractFrom ops ce = Some s
    \<Longrightarrow> updateSummary t n (Some ce) = Inr (setSummary n (Some s) (Some ce))"
  by (simp add: updateSummary_def)

lemma updateSummary_rejected:
  "SummaryCtor t = Some ops \<Longrightarrow> extractFrom ops ce = None
    \<Longrightarrow> updateSummary t n (Some ce) = updateSummary t n None"
  by (simp add: updateSummary_def)

lemma updateSummary_cached:
  "summary n \<noteq> None \<Longrightarrow> updateSummary t n None = Inr n"
  by (simp add: updateSummary_def split: option.splits)

lemma finishInsert_cached:
  "summary n \<noteq> None \<Longrightarrow> finishInsert t (Some (Inr (n, d, p))) = Some (Inr (True, n, d, p))"
  by (simp add: finishInsert_def updateSummary_cached restructure_def isEmpty_def hasData_def)

text \<open>
  C7, as the claim words it, fails: the node \<open>[0, 100)\<close> has a sufficient
  resolution and no data, the queue is sorted and none of its entries
  starts before the node, and its second entry has exactly the node's
  range; the insertion throws, because only the first surviving entry is
  compared with the node's range.
\<close>

theorem C7_first_entry_only_counterexample:
  "(\<forall>fuel. insert (Suc fuel) scenarioTree summaryNode
       (DataArray [entryOver 0 50 2, entryOver 0 100 5]) (Some wholeRange) plainProps
     = Some (Inl (Error ''Summary range does not match!'')))
   \<and> resolutionEnough scenarioTree summaryNode
       (Some (resolutionOr (cr_resolution wholeRange) (ip_resolution plainProps)))
   \<and> \<not> hasData summaryNode
   \<and> sorted (map cr_start [entryOver 0 50 2, entryOver 0 100 5])
   \<and> cr_start (entryOver 0 100 5) = nstart summaryNode
   \<and> cr_end (entryOver 0 100 5) = nend summaryNode"
  by (simp add: insertRange_Some finishInsert_def resolutionEnough_def resolution_def
      scenario_resolution_0 summaryNode_def plainProps_def resolutionOr_def truthyNumber_def
      insertSummary_def arrayOf_def entryOver_def wholeRange_def hasData_def)

text \<open>
  C7, amended: on a node whose resolution satisfies the requested one, with
  a summary type installed and a queue sorted by start, \<open>insert\<close> (with any
  positive fuel) works on the queue without its entries that start before
  the node (\<open>surv\<close>) and looks at the first of them only.  Without
  surviving entries it only refreshes the summary.  When the first surviving
  entry has exactly the node's range, the summary it carries is installed
  with the entry as wrapper (when it carries none the summary is recomputed
  from the buckets), the callback is called on it and it is taken from the
  queue.  When it does not and the node has data, nothing changes.  When it
  does not and the node has no data: if no surviving entry starts before the
  node's end, \<open>updateSummary\<close> is given a bare new summary object, which
  becomes the summary when the summary type accepts it (and the summary is
  recomputed from the buckets otherwise), the queue being left as it is; if
  the first surviving entry starts before the node's end, the insertion
  throws \<open>Summary range does not match!\<close>.
\<close>

theorem C7_sufficient_resolution_insert:
  assumes enough:
      "resolutionEnough t n (Some (resolutionOr (cr_resolution cr) (ip_resolution props)))"
    and ctor: "SummaryCtor t = Some ops"
    and sorted: "sorted (map cr_start ds)"
    and surv: "surv = filter (\<lambda>e. nstart n \<le> cr_start e) ds"
    and r: "r = insert (Suc fuel) t n (DataArray ds) (Some cr) props"
  shows "(surv = [] \<longrightarrow> r = finishInsert t (Some (Inr (n, Some [], props))))
    \<and> (\<forall>e rest. surv = e # rest \<longrightarrow>
         (cr_start e = nstart n \<and> cr_end e = nend n \<longrightarrow>
            (\<forall>s. extractFrom ops (Region e) = Some s \<longrightarrow>
               r = Some (Inr (True, setSummary n (Some s) (Some (Region e)), Some rest,
                              callCallback props e)))
          \<and> (extractFrom ops (Region e) = None \<longrightarrow>
               r = finishInsert t
                     (case updateSummary t n None of
                        Inl err \<Rightarrow> Some (Inl err)
                      | Inr n' \<Rightarrow> Some (Inr (n', Some rest, callCallback props e)))))
       \<and> (\<not> (cr_start e = nstart n \<and> cr_end e = nend n) \<and> hasData n \<longrightarrow>
            r = Some (Inr (True, n, Some surv, props)))
       \<and> (\<not> (cr_start e = nstart n \<and> cr_end e = nend n) \<and> \<not> hasData n
            \<and> (\<forall>e'\<in>set surv. nend n \<le> cr_start e') \<longrightarrow>
            (\<forall>s. extractFrom ops (SummaryObject (newSummary ops)) = Some s \<longrightarrow>
               r = Some (Inr (True,
                     setSummary n (Some s) (Some (SummaryObject (newSummary ops))),
                     Some surv, props)))
          \<and> (extractFrom ops (SummaryObject (newSummary ops)) = None \<longrightarrow>
               r = finishInsert t
                     (case updateSummary t n None of
                        Inl err \<Rightarrow> Some (Inl err)
                      | Inr n' \<Rightarrow> Some (Inr (n', Some surv, props)))))
       \<and> (\<not> (cr_start e = nstart n \<and> cr_end e = nend n) \<and> \<not> hasData n
            \<and> cr_start e < nend n \<longrightarrow>
            r = Some (Inl (Error ''Summary range does not match!''))))"
proof -
  have dw: "dropWhile (\<lambda>e. nstart n > cr_start e) ds = surv"
    unfolding surv by (rule dropWhile_sorted_filter[OF sorted])
  have req: "r = finishInsert t (Some (insertSummary t n (Some ds) props))"
    unfolding r by (rule insert_sufficient[OF enough])
  have empty: "surv = [] \<longrightarrow> r = finishInsert t (Some (Inr (n, Some [], props)))"
    unfolding req by (simp add: insertSummary_def dw)
  have rest: "(cr_start e = nstart n \<and> cr_end e = nend n \<longrightarrow>
            (\<forall>s. extractFrom ops (Region e) = Some s \<longrightarrow>
               r = Some (Inr (True, setSummary n (Some s) (Some (Region e)), Some rest,
                              callCallback props e)))
          \<and> (extractFrom ops (Region e) = None \<longrightarrow>
               r = finishInsert t
                     (case updateSummary t n None of
                        Inl err \<Rightarrow> Some (Inl err)
                      | Inr n' \<Rightarrow> Some (Inr (n', Some rest, callCallback props e)))))
       \<and> (\<not> (cr_start e = nstart n \<and> cr_end e = nend n) \<and> hasData n \<longrightarrow>
            r = Some (Inr (True, n, Some surv, props)))
       \<and> (\<not> (cr_start e = nstart n \<and> cr_end e = nend n) \<and> \<not> hasData n
            \<and> (\<forall>e'\<in>set surv. nend n \<le> cr_start e') \<longrightarrow>
            (\<forall>s. extractFrom ops (SummaryObject (newSummary ops)) = Some s \<longrightarrow>
               r = Some (Inr (True,
                     setSummary n (Some s) (Some (SummaryObject (newSummary ops))),
                     Some surv, props)))
          \<and> (extractFrom ops (SummaryObject (newSummary ops)) = None \<longrightarrow>
               r = finishInsert t
                     (case updateSummary t n None of
                        Inl err \<Rightarrow> Some (Inl err)
                      | Inr n' \<Rightarrow> Some (Inr (n', Some surv, props)))))
       \<and> (\<not> (cr_start e = nstart n \<and> cr_end e = nend n) \<and> \<not> hasData n
            \<and> cr_start e < nend n \<longrightarrow>
            r = Some (Inl (Error ''Summary range does not match!'')))"
    if sv: "surv = e # rest" for e rest
  proof (intro conjI impI allI)
    fix s
    assume m: "cr_start e = nstart n \<and> cr_end e = nend n"
      and ex: "extractFrom ops (Region e) = Some s"
    have "insertSummary t n (Some ds) props
        = Inr (setSummary n (Some s) (Some (Region e)), Some rest, callCallback props e)"
      using m by (simp add: insertSummary_def dw sv updateSummary_installed[OF ctor ex])
    then show "r = Some (Inr (True, setSummary n (Some s) (Some (Region e)), Some rest,
                              callCallback props e))"
      unfolding req by (simp add: finishInsert_cached setSummary_def)
  next
    assume m: "cr_start e = nstart n \<and> cr_end e = nend n"
      and ex: "extractFrom ops (Region e) = None"
    show "r = finishInsert t
                     (case updateSummary t n None of
                        Inl err \<Rightarrow> Some (Inl err)
                      | Inr n' \<Rightarrow> Some (Inr (n', Some rest, callCallback props e)))"
      unfolding req using m
      by (simp add: insertSummary_def dw sv updateSummary_rejected[OF ctor ex] finishInsert_def
          split: sum.splits)
  next
    assume a: "\<not> (cr_start e = nstart n \<and> cr_end e = nend n) \<and> hasData n"
    then have "insertSummary t n (Some ds) props = Inr (n, Some surv, props)"
      by (auto simp add: insertSummary_def dw sv)
    then show "r = Some (Inr (True, n, Some surv, props))"
      unfolding req using a by (simp add: finishInsert_cached hasData_def)
  next
    fix s
    assume a: "\<not> (cr_start e = nstart n \<and> cr_end e = nend n) \<and> \<not> hasData n
            \<and> (\<forall>e'\<in>set surv. nend n \<le> cr_start e')"
      and ex: "extractFrom ops (SummaryObject (newSummary ops)) = Some s"
    have "nend n \<le> cr_start e" using a sv by simp
    then have "insertSummary t n (Some ds) props
        = Inr (setSummary n (Some s) (Some (SummaryObject (newSummary ops))), Some surv, props)"
      using a by (auto simp add: insertSummary_def dw sv ctor updateSummary_installed[OF ctor ex])
    then show "r = Some (Inr (True,
                     setSummary n (Some s) (Some (SummaryObject (newSummary ops))),
                     Some surv, props))"
      unfolding req by (simp add: finishInsert_cached setSummary_def)
  next
    assume a: "\<not> (cr_start e = nstart n \<and> cr_end e = nend n) \<and> \<not> hasData n
            \<and> (\<forall>e'\<in>set surv. nend n \<le> cr_start e')"
      and ex: "extractFrom ops (SummaryObject (newSummary ops)) = None"
    have "nend n \<le> cr_start e" using a sv by simp
    then show "r = finishInsert t
                     (case updateSummary t n None of
                        Inl err \<Rightarrow> Some (Inl err)
                      | Inr n' \<Rightarrow> Some (Inr (n', Some surv, props)))"
      unfolding req using a
      by (auto simp add: insertSummary_def dw sv ctor updateSummary_rejected[OF ctor ex]
          finishInsert_def split: sum.splits)
  next
    assume a: "\<not> (cr_start e = nstart n \<and> cr_end e = nend n) \<and> \<not> hasData n
            \<and> cr_start e < nend n"
    then have "insertSummary t n (Some ds) props = Inl (Error ''Summary range does not match!'')"
      by (auto simp add: insertSummary_def dw sv)
    then show "r = Some (Inl (Error ''Summary range does not match!''))"
      unfolding req by (simp add: finishInsert_def)
  qed
  from empty rest show ?thesis by blast
qed


theorem C7_sufficient_resolution_insert_witness:
  "insert (Suc 0) scenarioTree summaryNode
       (DataArray [entryOver (- 100) 0 3, entryOver 0 100 5]) (Some wholeRange) plainProps
     = Some (Inr (True, setSummary summaryNode (Some 5) (Some (Region (entryOver 0 100 5))),
                  Some [], callCallback plainProps (entryOver 0 100 5)))
   \<and> insert (Suc 0) acceptingTree summaryNode (DataArray [entryOver 100 200 4])
       (Some wholeRange) plainProps
     = Some (Inr (True, setSummary summaryNode (Some 0) (Some (SummaryObject 0)),
                  Some [entryOver 100 200 4], plainProps))
   \<and> insert (Suc 0) scenarioTree summaryNode (DataArray [entryOver 0 50 2])
       (Some wholeRange) plainProps
     = Some (Inl (Error ''Summary range does not match!''))"
proof -
  have enough: "resolutionEnough scenarioTree summaryNode
       (Some (resolutionOr (cr_resolution wholeRange) (ip_resolution plainProps)))"
    by (simp add: resolutionEnough_def resolution_def scenario_resolution_0 summaryNode_def
        plainProps_def resolutionOr_def truthyNumber_def wholeRange_def)
  have enough': "resolutionEnough acceptingTree summaryNode
       (Some (resolutionOr (cr_resolution wholeRange) (ip_resolution plainProps)))"
    by (simp add: resolutionEnough_def resolution_def getResolutionAtDepth_def parseInt_def
        acceptingTree_def summaryNode_def plainProps_def resolutionOr_def truthyNumber_def
        wholeRange_def)
  have ctor: "SummaryCtor scenarioTree = Some exampleSummaryCtor"
    by (simp add: scenarioTree_def)
  have ctor': "SummaryCtor acceptingTree = Some (exampleSummaryCtor\<lparr>extractFrom :=
        (\<lambda>ce. case ce of Region r \<Rightarrow> cr_data r | SummaryObject s \<Rightarrow> Some s)\<rparr>)"
    by (simp add: acceptingTree_def)
  have s1: "sorted (map cr_start [entryOver (- 100) 0 3, entryOver 0 100 5])"
    and s2: "sorted (map cr_start [entryOver 100 200 4])"
    and s3: "sorted (map cr_start [entryOver 0 50 2])"
    by (simp_all add: entryOver_def)
  have ev: "filter (\<lambda>e. nstart summaryNode \<le> cr_start e)
               [entryOver (- 100) 0 3, entryOver 0 100 5] = [entryOver 0 100 5]"
    "filter (\<lambda>e. nstart summaryNode \<le> cr_start e) [entryOver 100 200 4]
       = [entryOver 100 200 4]"
    "filter (\<lambda>e. nstart summaryNode \<le> cr_start e) [entryOver 0 50 2] = [entryOver 0 50 2]"
    "cr_start (entryOver 0 100 5) = nstart summaryNode"
    "cr_end (entryOver 0 100 5) = nend summaryNode"
    "extractFrom exampleSummaryCtor (Region (entryOver 0 100 5)) = Some 5"
    "cr_end (entryOver 100 200 4) \<noteq> nend summaryNode"
    "\<not> hasData summaryNode"
    "nend summaryNode \<le> cr_start (entryOver 100 200 4)"
    "extractFrom (exampleSummaryCtor\<lparr>extractFrom :=
        (\<lambda>ce. case ce of Region r \<Rightarrow> cr_data r | SummaryObject s \<Rightarrow> Some s)\<rparr>)
        (SummaryObject (newSummary (exampleSummaryCtor\<lparr>extractFrom :=
        (\<lambda>ce. case ce of Region r \<Rightarrow> cr_data r | SummaryObject s \<Rightarrow> Some s)\<rparr>))) = Some 0"
    "newSummary (exampleSummaryCtor\<lparr>extractFrom :=
        (\<lambda>ce. case ce of Region r \<Rightarrow> cr_data r | SummaryObject s \<Rightarrow> Some s)\<rparr>) = 0"
    "cr_end (entryOver 0 50 2) \<noteq> nend summaryNode"
    "cr_start (entryOver 0 50 2) < nend summaryNode"
    by (simp_all add: entryOver_def summaryNode_def exampleSummaryCtor_def hasData_def)
  have a: "insert (Suc 0) scenarioTree summaryNode
       (DataArray [entryOver (- 100) 0 3, entryOver 0 100 5]) (Some wholeRange) plainProps
     = Some (Inr (True, setSummary summaryNode (Some 5) (Some (Region (entryOver 0 100 5))),
                  Some [], callCallback plainProps (entryOver 0 100 5)))"
    using C7_sufficient_resolution_insert[OF enough ctor s1 refl refl, of 0, unfolded ev(1)]
      ev(4-6)
    by blast
  have b: "insert (Suc 0) acceptingTree summaryNode (DataArray [entryOver 100 200 4])
       (Some wholeRange) plainProps
     = Some (Inr (True, setSummary summaryNode (Some 0) (Some (SummaryObject 0)),
                  Some [entryOver 100 200 4], plainProps))"
    using C7_sufficient_resolution_insert[OF enough' ctor' s2 refl refl, of 0,
        unfolded ev(2) ev(11)] ev(7-10)[unfolded ev(11)]
    by simp
  have c: "insert (Suc 0) scenarioTree summaryNode (DataArray [entryOver 0 50 2])
       (Some wholeRange) plainProps
     = Some (Inl (Error ''Summary range does not match!''))"
    using C7_sufficient_resolution_insert[OF enough ctor s3 refl refl, of 0, unfolded ev(3)]
      ev(8) ev(12-13)
    by blast
  from a b c show ?thesis by blast
qed

section \<open>Scenario A: insertion and traversal\<close>

text \<open>
  The reverse depths of the nodes of Scenario A, and the resolutions of its
  tree.
\<close>

lemma ln_scenario:
  "ln (100000::real) = 5 * ln 10" "ln (10000::real) = 4 * ln 10" "ln (1000::real) = 3 * ln 10"
  "ln (100::real) = 2 * ln 10"
  using ln_realpow[of "10::real" 5] ln_realpow[of "10::real" 4] ln_realpow[of "10::real" 3]
    ln_realpow[of "10::real" 2]
  by simp_all

lemma scenario_nodes:
  "newPineNode scenarioTree r 0 100000 = PineNode r 0 100000 3 [0, 100000] [Unknown] None None"
  "newPineNode scenarioTree r 0 10000 = PineNode r 0 10000 2 [0, 10000] [Unknown] None None"
  "newPineNode scenarioTree r 0 1000 = PineNode r 0 1000 1 [0, 1000] [Unknown] None None"
  "newPineNode scenarioTree r 500 600 = PineNode r 500 600 0 [500, 600] [Unknown] None None"
  by (simp_all add: newPineNode_def scenarioTree_def ln_scenario)

lemma scenario_ladder:
  "getResolutionAtDepth scenarioTree 0 = 100"
  "getResolutionAtDepth scenarioTree 1 = 1000"
  "getResolutionAtDepth scenarioTree 2 = 10000"
  "getResolutionAtDepth scenarioTree 3 = 100000"
  by (simp_all add: getResolutionAtDepth_def parseInt_def scenarioTree_def)

lemmas insert_eval =
  insertRange_Some arrayOf_def resolutionEnough_def resolution_def scenario_ladder
  resolutionOr_def truthyNumber_def
  addLeafRecords_def truncateChrRange_def splitBefore_def splitAfter_def keyBelow_def
  keyAbove_def keyAt_def continuedListOf_def leafStep_def dataIndexOf_def traverseData_def
  slice_def leafInsert_def newLeaf_def setValue_def setBuckets_def nextStart_def
  finishInsert_def updateSummary_def scenario_factors exampleSummaryCtor_def setSummary_def
  restructure_def isEmpty_def hasData_def superIsEmpty_def Let_def callCallback_def
  childTarget_def childRangeStart_def childRangeEnd_def childLive_def
  generalChildResolution_def fitResolution_def parseInt_def splitChild_def storeChild_def
  storeLeaf_def fixChild_def mergeChild_def canMerge_def removeAt_def valueAt_def
  scenario_nodes advanceIndex.simps

lemma scenario_fields:
  "cr_start scenarioEntry = 500" "cr_end scenarioEntry = 600"
  "cr_resolution scenarioEntry = None"
  "ip_resolution scenarioProps = None" "ip_continuedList scenarioProps = None"
  "ip_LeafNodeCtor scenarioProps = True" "ip_hasCallback scenarioProps = False"
  "ip_dataIndex scenarioProps = None"
  by (simp_all add: scenarioEntry_def scenarioProps_def)

text \<open>
  The insertion of the entry, level by level from the leaf-level node up;
  the fuel is what the loops of each level need, and any more gives the same
  result.
\<close>

lemma leaf_level:
  assumes "cr_start cr \<le> 500" "600 \<le> cr_end cr" "cr_resolution cr = None"
  shows "insert (Suc (Suc (Suc f))) scenarioTree
         (PineNode False 500 600 0 [500, 600] [Unknown] None None)
         (DataArray [scenarioEntry]) (Some cr) scenarioProps
     = Some (Inr (True, scenarioLeafNode, Some [],
         scenarioProps\<lparr>ip_continuedList := Some []\<rparr>))"
  using assms
  by (simp add: insert_eval scenarioEntry_def scenarioProps_def scenarioLeafNode_def)


lemma mid_own:
  assumes "cr_start cr = 500" "cr_end cr = 600" "cr_resolution cr = None"
  shows "insert (Suc (Suc (Suc (Suc (Suc f))))) scenarioTree
         (PineNode False 0 1000 1 [0, 1000] [Unknown] None None)
         (DataArray [scenarioEntry]) (Some cr) scenarioProps
     = Some (Inr (True, scenarioMidNode, Some [], scenarioProps\<lparr>ip_continuedList := Some []\<rparr>))"
  apply (subst insert.simps)
  apply (simp add: insert_eval scenario_fields leaf_level assms scenarioMidNode_def
      del: insert.simps)
  done

lemma scenario_summaries:
  "summary scenarioLeafNode = Some 1" "summary scenarioMidNode = None"
  "summary scenarioUpperNode = None"
  by (simp_all add: scenarioLeafNode_def scenarioMidNode_def scenarioUpperNode_def)

lemma upper_own:
  assumes "cr_start cr = 500" "cr_end cr = 600" "cr_resolution cr = None"
  shows "insert (Suc (Suc (Suc (Suc (Suc (Suc (Suc f))))))) scenarioTree
         (PineNode False 0 10000 2 [0, 10000] [Unknown] None None)
         (DataArray [scenarioEntry]) (Some cr) scenarioProps
     = Some (Inr (True, scenarioUpperNode, Some [],
          scenarioProps\<lparr>ip_continuedList := Some []\<rparr>))"
  apply (subst insert.simps)
  apply (simp add: insert_eval scenario_fields mid_own assms scenario_summaries
      scenarioUpperNode_def del: insert.simps)
  done

lemma root_own:
  "insert (Suc (Suc (Suc (Suc (Suc (Suc (Suc (Suc (Suc f))))))))) scenarioTree
         (newPineNode scenarioTree True 0 100000)
         (DataArray [scenarioEntry]) None scenarioProps
     = Some (Inr (True, scenarioRoot, Some [],
          scenarioProps\<lparr>ip_continuedList := Some []\<rparr>))"
  apply (subst insert.simps)
  apply (simp add: insert_eval insertRange_single scenario_fields upper_own scenario_summaries
      scenarioRoot_def del: insert.simps)
  done

lemma covered_summaries:
  "summary coveredMidNode = Some 1" "summary coveredUpperNode = Some 1"
  by (simp_all add: coveredMidNode_def coveredUpperNode_def)

lemma mid_full:
  assumes "cr_start cr \<le> 0" "1000 \<le> cr_end cr" "cr_resolution cr = None"
  shows "insert (Suc (Suc (Suc (Suc (Suc (Suc (Suc (Suc (Suc (Suc (Suc (Suc f))))))))))))
         scenarioTree
         (PineNode False 0 1000 1 [0, 1000] [Unknown] None None)
         (DataArray [scenarioEntry]) (Some cr) scenarioProps
     = Some (Inr (True, coveredMidNode, Some [], scenarioProps\<lparr>ip_continuedList := Some []\<rparr>))"
  apply (subst insert.simps)
  apply (simp add: insert_eval scenario_fields leaf_level assms scenario_summaries
      coveredMidNode_def summarised_def del: insert.simps)
  done

lemma upper_full:
  assumes "cr_start cr \<le> 0" "10000 \<le> cr_end cr" "cr_resolution cr = None"
  shows "insert (Suc (Suc (Suc (Suc (Suc (Suc (Suc (Suc (Suc (Suc (Suc (Suc (Suc (Suc f))))))))))))))
         scenarioTree
         (PineNode False 0 10000 2 [0, 10000] [Unknown] None None)
         (DataArray [scenarioEntry]) (Some cr) scenarioProps
     = Some (Inr (True, coveredUpperNode, Some [],
          scenarioProps\<lparr>ip_continuedList := Some []\<rparr>))"
  apply (subst insert.simps)
  apply (simp add: insert_eval scenario_fields mid_full assms covered_summaries
      coveredUpperNode_def summarised_def del: insert.simps)
  done

lemma root_full:
  "insert (Suc (Suc (Suc (Suc (Suc (Suc (Suc (Suc (Suc (Suc (Suc (Suc (Suc (Suc (Suc (Suc
       f))))))))))))))))
         scenarioTree (newPineNode scenarioTree True 0 100000)
         (DataArray [scenarioEntry]) (Some spanRange) scenarioProps
     = Some (Inr (True, coveredRoot, Some [],
          scenarioProps\<lparr>ip_continuedList := Some []\<rparr>))"
  apply (subst insert.simps)
  apply (simp add: insert_eval scenario_fields upper_full covered_summaries
      coveredRoot_def summarised_def spanRange_def del: insert.simps)
  done

lemmas traverse_eval =
  requestedResolution_def truthyNumber_def resolutionEnough_def resolution_def scenario_ladder
  hasData_def leafTraverse_def callFuncOnDataEntry_def collect_def firstCall_def

lemma traverse_own:
  "traverse scenarioTree scenarioRoot (Some spanQuery) (Some collect) None False (Some firstCall) []
     = Inr (Some True, Some (firstCall\<lparr>tp_notFirstCall := True\<rparr>), [Some (Region scenarioEntry)])"
  "traverse scenarioTree scenarioRoot (Some entryQuery) (Some collect) None False (Some firstCall) []
     = Inr (Some True, Some (firstCall\<lparr>tp_notFirstCall := True\<rparr>), [Some (Region scenarioEntry)])"
  by (simp_all add: traverse_eval scenarioRoot_def scenarioUpperNode_def scenarioMidNode_def
      scenarioLeafNode_def spanQuery_def entryQuery_def)

lemma traverse_full:
  "traverse scenarioTree coveredRoot (Some spanQuery) (Some collect) None False (Some firstCall) []
     = Inr (Some True, Some (firstCall\<lparr>tp_notFirstCall := True\<rparr>), [Some (Region scenarioEntry)])"
  by (simp_all add: traverse_eval coveredRoot_def coveredUpperNode_def coveredMidNode_def
      scenarioLeafNode_def spanQuery_def summarised_def)

text \<open>
  C2: Scenario A.  On the empty tree \<open>[0, 100000)\<close> with scaling factor 10
  and leaf scaling factor 100, the insertion of the single entry
  \<open>[500, 600)\<close> returns (with fuel 9 or more when it is inserted over its
  own range, with fuel 16 or more when it is inserted over the whole span),
  it consumes the entry from the queue, and a traversal of the resulting
  tree at resolution 1 over the span (and over the entry's own range) calls
  the callback exactly once, with that entry as it was inserted.
\<close>

theorem C2_scenario_round_trip:
  "insert (9 + fuel) scenarioTree (newPineNode scenarioTree True 0 100000)
       (DataArray [scenarioEntry]) None scenarioProps
     = Some (Inr (True, scenarioRoot, Some [], scenarioProps\<lparr>ip_continuedList := Some []\<rparr>))
   \<and> traverse scenarioTree scenarioRoot (Some spanQuery) (Some collect) None False
       (Some firstCall) []
     = Inr (Some True, Some (firstCall\<lparr>tp_notFirstCall := True\<rparr>),
            [Some (Region scenarioEntry)])
   \<and> traverse scenarioTree scenarioRoot (Some entryQuery) (Some collect) None False
       (Some firstCall) []
     = Inr (Some True, Some (firstCall\<lparr>tp_notFirstCall := True\<rparr>),
            [Some (Region scenarioEntry)])
   \<and> insert (16 + fuel) scenarioTree (newPineNode scenarioTree True 0 100000)
       (DataArray [scenarioEntry]) (Some spanRange) scenarioProps
     = Some (Inr (True, coveredRoot, Some [], scenarioProps\<lparr>ip_continuedList := Some []\<rparr>))
   \<and> traverse scenarioTree coveredRoot (Some spanQuery) (Some collect) None False
       (Some firstCall) []
     = Inr (Some True, Some (firstCall\<lparr>tp_notFirstCall := True\<rparr>),
            [Some (Region scenarioEntry)])"
proof -
  have f9: "9 + fuel = Suc (Suc (Suc (Suc (Suc (Suc (Suc (Suc (Suc fuel))))))))"
    by simp
  have f16: "16 + fuel = Suc (Suc (Suc (Suc (Suc (Suc (Suc (Suc (Suc (Suc (Suc (Suc (Suc (Suc
       (Suc (Suc fuel)))))))))))))))"
    by simp
  show ?thesis
    unfolding f9 f16 using root_own[of fuel] root_full[of fuel] traverse_own traverse_full
    by blast
qed

section \<open>Insertion: the summary invariant\<close>

lemma bucketsComplete_iff:
  "bucketsComplete vs \<longleftrightarrow> (\<forall>c. Branch c \<in> set vs \<longrightarrow> summaryComplete c)"
  by (induction vs) (auto split: bucket.splits)

lemma summaryComplete_iff:
  "summaryComplete n
     \<longleftrightarrow> ((list_all bucketHasData (vals n) \<longrightarrow> hasData n) \<and> bucketsComplete (vals n))"
  by (cases n) (simp add: hasData_def)

lemma bucketsComplete_subset:
  "bucketsComplete vs \<Longrightarrow> set vs' \<subseteq> set vs \<union> A \<Longrightarrow> \<forall>c. Branch c \<in> A \<longrightarrow> summaryComplete c
     \<Longrightarrow> bucketsComplete vs'"
  unfolding bucketsComplete_iff by blast

lemma summaryFromChildren_None:
  "summaryFromChildren ops rd rng bs acc = Inr None \<Longrightarrow> \<not> list_all bucketHasData bs"
  by (induction bs arbitrary: acc)
    (auto simp: hasData_def split: bucket.splits if_splits option.splits)

lemma updateSummary_vals: "updateSummary t n ce = Inr n' \<Longrightarrow> vals n' = vals n"
  by (auto simp: updateSummary_def setSummary_def split: option.splits sum.splits if_splits)

lemma updateSummary_complete:
  assumes "SummaryCtor t = Some ops" "bucketsComplete (vals n)" "updateSummary t n ce = Inr n'"
  shows "summaryComplete n'"
proof -
  have v: "vals n' = vals n" using assms(3) by (rule updateSummary_vals)
  have "list_all bucketHasData (vals n) \<longrightarrow> hasData n'"
    using assms(1,3)
    by (auto simp: updateSummary_def setSummary_def hasData_def
        dest: summaryFromChildren_None split: option.splits sum.splits if_splits)
  then show ?thesis using assms(2) by (simp add: summaryComplete_iff v)
qed

lemma removeAt_subset: "set (removeAt i xs) \<subseteq> set xs"
  unfolding removeAt_def using set_take_subset[of i xs] set_drop_subset[of "Suc i" xs] by auto

lemma vals_setBuckets [simp]: "vals (setBuckets n ks vs) = vs"
  by (simp add: setBuckets_def)

lemma splitChild_vals:
  "splitChild n i k fill = Inr n'
    \<Longrightarrow> set (vals n') \<subseteq> set (vals n) \<union> (case fill of None \<Rightarrow> {} | Some v \<Rightarrow> {v})"
proof -
  assume a: "splitChild n i k fill = Inr n'"
  then have i: "i < length (vals n)" by (auto simp: splitChild_def split: if_splits)
  have "set (take (Suc i) (vals n)) \<subseteq> set (vals n)" "set (drop (Suc i) (vals n)) \<subseteq> set (vals n)"
    by (rule set_take_subset, rule set_drop_subset)
  moreover have "vals n ! i \<in> set (vals n)" using i by simp
  ultimately show ?thesis using a
    by (auto simp: splitChild_def split: if_splits option.splits)
qed

lemma setValue_vals: "setValue n i v = Inr n' \<Longrightarrow> set (vals n') \<subseteq> set (vals n) \<union> {v}"
  using set_update_subset_insert[of "vals n" i v]
  by (auto simp: setValue_def split: if_splits)

lemma removeAt_mem: "x \<in> set (removeAt i xs) \<Longrightarrow> x \<in> set xs"
  using removeAt_subset[of i xs] by blast

lemma mergeChild_vals: "mergeChild n i fw force = (m, n') \<Longrightarrow> set (vals n') \<subseteq> set (vals n)"
  by (auto simp: mergeChild_def Let_def split: if_splits dest!: removeAt_mem)

lemma splitBefore_complete:
  assumes "bucketsComplete (vals n)" "splitBefore n i x fill = Inr (n', i')"
    "\<forall>c. fill \<noteq> Some (Branch c)"
  shows "bucketsComplete (vals n')"
proof (cases "keyBelow (keys n) i x")
  case True
  then obtain m where m: "splitChild n i x fill = Inr m" and n': "n' = m"
    using assms(2) by (auto simp: splitBefore_def split: sum.splits)
  show ?thesis
    unfolding n'
    by (rule bucketsComplete_subset[OF assms(1) splitChild_vals[OF m]])
      (use assms(3) in \<open>auto split: option.splits\<close>)
next
  case False
  then show ?thesis using assms(1,2) by (simp add: splitBefore_def)
qed

lemma splitAfter_complete:
  assumes "bucketsComplete (vals n)" "splitAfter n i x = Inr n'"
  shows "bucketsComplete (vals n')"
proof (cases "keyAbove (keys n) (Suc i) x")
  case True
  then have m: "splitChild n i x None = Inr n'"
    using assms(2) by (simp add: splitAfter_def)
  show ?thesis
    by (rule bucketsComplete_subset[OF assms(1) splitChild_vals[OF m]]) simp
next
  case False
  then show ?thesis using assms by (simp add: splitAfter_def)
qed

lemma setValue_complete:
  assumes "bucketsComplete (vals n)" "setValue n i v = Inr n'"
    "\<forall>c. v = Branch c \<longrightarrow> summaryComplete c"
  shows "bucketsComplete (vals n')"
  by (rule bucketsComplete_subset[OF assms(1) setValue_vals[OF assms(2)]]) (use assms(3) in simp)

lemma mergeChild_complete:
  assumes "bucketsComplete (vals n)" "mergeChild n i fw force = (m, n')"
  shows "bucketsComplete (vals n')"
  by (rule bucketsComplete_subset[OF assms(1), where A = "{}"])
    (use mergeChild_vals[OF assms(2)] in auto)

lemma update_complete:
  assumes "bucketsComplete vs" "\<forall>c. v = Branch c \<longrightarrow> summaryComplete c"
  shows "bucketsComplete (vs[i := v])"
  by (rule bucketsComplete_subset[OF assms(1), where A = "{v}"])
    (use set_update_subset_insert[of vs i v] assms(2) in auto)

lemma fixChild_complete:
  assumes "bucketsComplete (vals n)" "fixChild flag n i = Inr (n', i')"
  shows "bucketsComplete (vals n')"
proof (cases flag)
  case True
  then obtain n4 where s: "setValue n i KnownEmpty = Inr n4"
    and m: "mergeChild n4 i True False = (fst (mergeChild n4 i True False), n')"
    using assms(2) by (auto simp: fixChild_def split: sum.splits prod.splits)
  have "bucketsComplete (vals n4)" by (rule setValue_complete[OF assms(1) s]) simp
  then show ?thesis by (rule mergeChild_complete[OF _ m])
next
  case False
  then show ?thesis using assms by (simp add: fixChild_def)
qed

lemma leafStep_complete:
  assumes "bucketsComplete (vals n)" "leafStep n data cs ce i props = Inr (n', i', p', prev)"
  shows "bucketsComplete (vals n')"
proof -
  let ?i1 = "advanceIndex (keys n) i cs"
  obtain n1 i2 where sb: "splitBefore n ?i1 cs (Some KnownEmpty) = Inr (n1, i2)"
    using assms(2) by (auto simp: leafStep_def Let_def split: sum.splits prod.splits)
  have c1: "bucketsComplete (vals n1)"
    by (rule splitBefore_complete[OF assms(1) sb]) simp
  from assms(2) sb consider
      (leaf) l where "setValue n1 i2 (Leaf l) = Inr n'"
    | (fill) v n2 m where "setValue n1 i2 v = Inr n2" "\<forall>c. v \<noteq> Branch c"
        "mergeChild n2 i2 False False = (m, n')"
    | (same) "n' = n1"
    by (auto simp: leafStep_def Let_def split: sum.splits prod.splits if_splits)
  then show ?thesis
  proof cases
    case leaf
    show ?thesis by (rule setValue_complete[OF c1 leaf]) simp
  next
    case fill
    have "bucketsComplete (vals n2)" by (rule setValue_complete[OF c1 fill(1)]) (use fill(2) in simp)
    then show ?thesis by (rule mergeChild_complete[OF _ fill(3)])
  next
    case same
    then show ?thesis using c1 by simp
  qed
qed

lemma addLeafLoop_complete:
  "bucketsComplete (vals n)
    \<Longrightarrow> addLeafLoop fuel n data cs ce i prev props = Some (Inr (n', prev', p'))
    \<Longrightarrow> bucketsComplete (vals n')"
proof (induction fuel arbitrary: n cs i prev props)
  case 0
  then show ?case by simp
next
  case (Suc fuel)
  show ?case
  proof (cases "cs < ce")
    case True
    then obtain n4 i4 p4 pv where st: "leafStep n data cs ce i props = Inr (n4, i4, p4, pv)"
      and rec: "addLeafLoop fuel n4 data (nextStart data ce p4) ce i4 (Some pv) p4
                  = Some (Inr (n', prev', p'))"
      using Suc.prems(2) by (auto split: sum.splits)
    show ?thesis
      by (rule Suc.IH[OF leafStep_complete[OF Suc.prems(1) st] rec])
  next
    case False
    then show ?thesis using Suc.prems by simp
  qed
qed

lemma addLeafRecords_complete:
  assumes "bucketsComplete (vals n)" "addLeafRecords fuel n data cr props = Some (Inr (n', d', p'))"
  shows "bucketsComplete (vals n')"
proof -
  from assms(2) obtain ds n1 i1 n2 pv p3 where
    sb: "splitBefore n (advanceIndex (keys n) 0 (cr_start cr)) (cr_start cr) None = Inr (n1, i1)"
    and sa: "splitAfter n1 i1 (cr_end cr) = Inr n2"
    and lp: "addLeafLoop fuel n2 ds (cr_start cr) (cr_end cr) i1 None
               (props\<lparr>ip_dataIndex := Some 0, ip_continuedList := Some (continuedListOf props)\<rparr>)
             = Some (Inr (n', pv, p3))"
    by (auto simp: addLeafRecords_def split: if_splits option.splits sum.splits prod.splits)
  have "bucketsComplete (vals n1)" by (rule splitBefore_complete[OF assms(1) sb]) simp
  then have "bucketsComplete (vals n2)" by (rule splitAfter_complete[OF _ sa])
  then show ?thesis by (rule addLeafLoop_complete[OF _ lp])
qed

lemma insertSummary_complete:
  assumes "bucketsComplete (vals n)" "insertSummary t n data props = Inr (n', d', p')"
  shows "bucketsComplete (vals n')"
proof -
  from assms(2) consider (same) "n' = n" | (upd) ce where "updateSummary t n ce = Inr n'"
    by (auto simp: insertSummary_def split: option.splits list.splits if_splits sum.splits)
  then show ?thesis
  proof cases
    case same
    then show ?thesis using assms(1) by simp
  next
    case upd
    then show ?thesis using assms(1) updateSummary_vals[OF upd] by simp
  qed
qed


lemma finishInsert_SomeD:
  "finishInsert t X = Some (Inr (v, n', d', p'))
    \<Longrightarrow> \<exists>n1. X = Some (Inr (n1, d', p')) \<and> updateSummary t n1 None = Inr n'"
  by (auto simp: finishInsert_def split: option.splits sum.splits)

lemma storeChild_SomeD:
  "storeChild n i X = Some (Inr (flag, n3, d3, p3))
    \<Longrightarrow> \<exists>valid c'. X = Some (Inr (valid, c', d3, p3))
          \<and> n3 = setBuckets n (keys n) ((vals n)[i := Branch c'])"
  by (auto simp: storeChild_def split: option.splits sum.splits)

lemma vals_newPineNode [simp]: "vals (newPineNode t r s e) = [Unknown]"
  by (simp add: newPineNode_def)

lemma valueAt_mem: "valueAt vs i = Some b \<Longrightarrow> b \<in> set vs"
  by (auto simp: valueAt_def split: if_splits)

lemma childTarget_complete:
  assumes "bucketsComplete (vals n)" "childTarget t n data cr i props = Inr (n2, i2, ds, target)"
  shows "bucketsComplete (vals n2) \<and> (\<forall>c. target = IntoNode c \<longrightarrow> bucketsComplete (vals c))"
proof -
  let ?s = "childRangeStart t n cr"
  from assms(2) obtain n1 i1 where
    sb: "splitBefore n (advanceIndex (keys n) i ?s) ?s None = Inr (n1, i1)"
    and sa: "splitAfter n1 i1 (childRangeEnd t n cr) = Inr n2"
    and tg: "(\<exists>c. target = IntoNode c \<and> Branch c \<in> set (vals n2))
             \<or> target = IntoNode (newPineNode t False ?s (childRangeEnd t n cr))
             \<or> (\<forall>c. target \<noteq> IntoNode c)"
    by (auto simp: childTarget_def dest: valueAt_mem
        split: sum.splits prod.splits option.splits if_splits bucket.splits)
  have "bucketsComplete (vals n1)" by (rule splitBefore_complete[OF assms(1) sb]) simp
  then have c2: "bucketsComplete (vals n2)" by (rule splitAfter_complete[OF _ sa])
  have "bucketsComplete (vals c)" if "target = IntoNode c" for c
    using tg that c2 by (auto simp: bucketsComplete_iff[of "vals n2"] summaryComplete_iff)
  with c2 show ?thesis by blast
qed

lemma insert_complete_both:
  assumes ctor: "SummaryCtor t = Some ops"
  shows "(\<forall>n data chrRange props v n' d' p'.
            bucketsComplete (vals n)
            \<longrightarrow> insert fuel t n data chrRange props = Some (Inr (v, n', d', p'))
            \<longrightarrow> summaryComplete n')
       \<and> (\<forall>n data cr i props n' d' p'.
            bucketsComplete (vals n)
            \<longrightarrow> addNonLeafLoop fuel t n data cr i props = Some (Inr (n', d', p'))
            \<longrightarrow> bucketsComplete (vals n'))"
proof (induction fuel)
  case 0
  show ?case by simp
next
  case (Suc fuel)
  note IHins = Suc.IH[THEN conjunct1, rule_format]
  note IHloop = Suc.IH[THEN conjunct2, rule_format]
  have ins: "summaryComplete n'"
    if bc: "bucketsComplete (vals n)"
      and eq: "insert (Suc fuel) t n data chrRange props = Some (Inr (v, n', d', p'))"
    for n data chrRange props v n' d' p'
  proof -
    from eq obtain cr0 where cr0: "insertRange data chrRange = Inr cr0"
      by (auto split: sum.splits)
    let ?X = "if resolutionEnough t n
                  (Some (resolutionOr (cr_resolution cr0) (ip_resolution props)))
             then Some (insertSummary t n (arrayOf data) props)
             else if reverseDepth n > 0
             then addNonLeafLoop fuel t n (arrayOf data) (truncateChrRange n cr0) 0 props
             else addLeafRecords fuel n (arrayOf data) (truncateChrRange n cr0) props"
    from eq cr0 have "finishInsert t ?X = Some (Inr (v, n', d', p'))" by simp
    from finishInsert_SomeD[OF this] obtain n1 where
      X: "?X = Some (Inr (n1, d', p'))" and us: "updateSummary t n1 None = Inr n'"
      by blast
    have "bucketsComplete (vals n1)"
    proof (cases "resolutionEnough t n
                  (Some (resolutionOr (cr_resolution cr0) (ip_resolution props)))")
      case True
      with X have "insertSummary t n (arrayOf data) props = Inr (n1, d', p')" by simp
      then show ?thesis by (rule insertSummary_complete[OF bc])
    next
      case False
      show ?thesis
      proof (cases "reverseDepth n > 0")
        case True
        with False X have "addNonLeafLoop fuel t n (arrayOf data) (truncateChrRange n cr0) 0 props
            = Some (Inr (n1, d', p'))" by simp
        then show ?thesis by (rule IHloop[OF bc])
      next
        case nd: False
        with False X have "addLeafRecords fuel n (arrayOf data) (truncateChrRange n cr0) props
            = Some (Inr (n1, d', p'))" by simp
        then show ?thesis by (rule addLeafRecords_complete[OF bc])
      qed
    qed
    then show ?thesis by (rule updateSummary_complete[OF ctor _ us])
  qed
  have loop: "bucketsComplete (vals n')"
    if bc: "bucketsComplete (vals n)"
      and eq: "addNonLeafLoop (Suc fuel) t n data cr i props = Some (Inr (n', d', p'))"
    for n data cr i props n' d' p'
  proof (cases "cr_start cr < cr_end cr")
    case False
    with eq have "n' = n" by simp
    with bc show ?thesis by simp
  next
    case True
    from eq True obtain n2 i2 ds target where
      ct: "childTarget t n data cr i props = Inr (n2, i2, ds, target)"
      by (auto split: sum.splits)
    let ?X = "case target of
                Skip \<Rightarrow> Some (Inr (True, n2, Some ds, props))
              | IntoLeaf l \<Rightarrow> storeLeaf n2 i2 l ds props
              | IntoNode c \<Rightarrow> storeChild n2 i2 (insert fuel t c (DataArray ds) (Some cr) props)"
    from eq True ct obtain flag n3 d3 p3 n6 i6 where
      X: "?X = Some (Inr (flag, n3, d3, p3))"
      and fx: "fixChild flag n3 i2 = Inr (n6, i6)"
      and rec: "addNonLeafLoop fuel t n6 d3
                  (cr\<lparr>cr_start := min (childRangeEnd t n cr) (cr_end cr)\<rparr>) (Suc i6) p3
                = Some (Inr (n', d', p'))"
      by (auto split: sum.splits option.splits prod.splits)
    from childTarget_complete[OF bc ct] have c2: "bucketsComplete (vals n2)"
      and tc: "\<And>c. target = IntoNode c \<Longrightarrow> bucketsComplete (vals c)"
      by blast+
    have c3: "bucketsComplete (vals n3)"
    proof (cases target)
      case Skip
      with X c2 show ?thesis by simp
    next
      case (IntoLeaf l)
      with X obtain l' where "n3 = setBuckets n2 (keys n2) ((vals n2)[i2 := Leaf l'])"
        by (auto simp: storeLeaf_def split: prod.splits)
      then show ?thesis using update_complete[OF c2, of "Leaf l'" i2] by simp
    next
      case (IntoNode c)
      with X have "storeChild n2 i2 (insert fuel t c (DataArray ds) (Some cr) props)
          = Some (Inr (flag, n3, d3, p3))" by simp
      from storeChild_SomeD[OF this] obtain valid c' where
        ci: "insert fuel t c (DataArray ds) (Some cr) props = Some (Inr (valid, c', d3, p3))"
        and n3: "n3 = setBuckets n2 (keys n2) ((vals n2)[i2 := Branch c'])"
        by blast
      have "summaryComplete c'" by (rule IHins[OF tc[OF IntoNode] ci])
      then show ?thesis using update_complete[OF c2, of "Branch c'" i2] n3 by simp
    qed
    have "bucketsComplete (vals n6)" by (rule fixChild_complete[OF c3 fx])
    then show ?thesis by (rule IHloop[OF _ rec])
  qed
  from ins loop show ?case by blast
qed

lemma insert_complete:
  assumes "SummaryCtor t = Some ops" "bucketsComplete (vals n)"
    "insert fuel t n data chrRange props = Some (Inr (v, n', d', p'))"
  shows "summaryComplete n'"
  using insert_complete_both[OF assms(1), of fuel] assms(2,3) by blast


text \<open>
  The insertion of an empty queue over \<open>[50, 1000)\<close> into the fresh root
  \<open>[0, 1000)\<close>, and the removal of \<open>[0, 100)\<close> from the result.  \<open>remove\<close>
  writes the buckets only: the summary of the node it is called on stays
  as it was.
\<close>

lemma scenario_nodes_small:
  "newPineNode scenarioTree r 0 100 = PineNode r 0 100 0 [0, 100] [Unknown] None None"
  by (simp add: newPineNode_def scenario_factors)

lemma part_child:
  assumes "cr_start cr = 50" "100 \<le> cr_end cr" "cr_resolution cr = None"
  shows "insert (Suc (Suc (Suc f))) scenarioTree
         (PineNode False 0 100 0 [0, 100] [Unknown] None None)
         (DataArray []) (Some cr) scenarioProps
     = Some (Inr (True, PineNode False 0 100 0 [0, 50, 100] [Unknown, KnownEmpty] None None,
         Some [], scenarioProps\<lparr>ip_continuedList := Some []\<rparr>))"
  using assms
  by (simp add: insert_eval scenarioProps_def)

lemma part_root:
  "insert (Suc (Suc (Suc (Suc (Suc (Suc (Suc (Suc (Suc (Suc (Suc (Suc f))))))))))))
         scenarioTree (newPineNode scenarioTree True 0 1000)
         (DataArray []) (Some partRange) scenarioProps
     = Some (Inr (True, halfKnownRoot, Some [], scenarioProps\<lparr>ip_continuedList := Some []\<rparr>))"
  apply (subst insert.simps)
  apply (simp add: insert_eval scenario_fields part_child scenario_nodes_small
      halfKnownRoot_def partRange_def del: insert.simps)
  done

lemma remove_root:
  "remove (\<lambda>d n. True) halfKnownRoot removeTarget False KnownEmpty plainRemoveProps []
     = (False, emptiedRoot, plainRemoveProps, [])"
  by (simp add: remove.simps locateIndex.simps halfKnownRoot_def removeTarget_def valueAt_def
      clear_def setBuckets_def replaceChild_def mergeChild_def canMerge_def removeAt_def
      stillHolds_def callRemoveCallback_def plainRemoveProps_def emptiedRoot_def Let_def)

lemma remove_summary:
  "remove cmp n data exactMatch convertTo props warnings = (v, n', props', warnings')
    \<Longrightarrow> summary n' = summary n \<and> summaryChromRegion n' = summaryChromRegion n
        \<and> nstart n' = nstart n \<and> nend n' = nend n"
  by (subst (asm) remove.simps)
    (auto simp: clear_def setBuckets_def replaceChild_def mergeChild_def Let_def
      split: if_splits option.splits bucket.splits prod.splits)

text \<open>
  C1, as stated, fails in both directions.  A summary is also installed from
  a precomputed entry: after one insertion of a summary entry at resolution
  100 into the fresh one-node tree \<open>[0, 100)\<close>, the node has data while its
  only bucket is Unknown.  And \<open>remove\<close> never refreshes a summary: the root
  \<open>[0, 1000)\<close>, reached by one insertion and summary-complete, is left by the
  removal of \<open>[0, 100)\<close> with its only bucket confirmed empty and no summary.
\<close>

theorem C1_precomputed_summary_counterexample:
  "(\<forall>fuel. insert (Suc fuel) scenarioTree (newPineNode scenarioTree True 0 100)
       (DataArray [entryOver 0 100 5]) None plainProps
     = Some (Inr (True, summarisedRoot, Some [], callCallback plainProps (entryOver 0 100 5))))
   \<and> hasData summarisedRoot
   \<and> vals summarisedRoot = [Unknown]
   \<and> \<not> bucketHasData Unknown
   \<and> \<not> list_all bucketHasData (vals summarisedRoot)
   \<and> (\<forall>fuel. insert (12 + fuel) scenarioTree (newPineNode scenarioTree True 0 1000)
         (DataArray []) (Some partRange) scenarioProps
       = Some (Inr (True, halfKnownRoot, Some [], scenarioProps\<lparr>ip_continuedList := Some []\<rparr>)))
   \<and> summaryComplete halfKnownRoot
   \<and> remove (\<lambda>d n. True) halfKnownRoot removeTarget False KnownEmpty plainRemoveProps []
       = (False, emptiedRoot, plainRemoveProps, [])
   \<and> list_all bucketHasData (vals emptiedRoot)
   \<and> \<not> hasData emptiedRoot
   \<and> \<not> summaryComplete emptiedRoot"
proof -
  have a: "\<forall>fuel. insert (Suc fuel) scenarioTree (newPineNode scenarioTree True 0 100)
       (DataArray [entryOver 0 100 5]) None plainProps
     = Some (Inr (True, summarisedRoot, Some [], callCallback plainProps (entryOver 0 100 5)))"
    by (simp add: insertRange_single finishInsert_def resolutionEnough_def resolution_def
      scenario_resolution_0 newPineNode_def scenario_factors plainProps_def resolutionOr_def
      truthyNumber_def insertSummary_def arrayOf_def entryOver_def hasData_def
      updateSummary_def exampleSummaryCtor_def setSummary_def callCallback_def
      restructure_def isEmpty_def summarisedRoot_def)
  have b: "hasData summarisedRoot \<and> vals summarisedRoot = [Unknown] \<and> \<not> bucketHasData Unknown
      \<and> \<not> list_all bucketHasData (vals summarisedRoot)"
    by (simp add: summarisedRoot_def hasData_def)
  have f12: "12 + fuel = Suc (Suc (Suc (Suc (Suc (Suc (Suc (Suc (Suc (Suc (Suc (Suc fuel)))))))))))"
    for fuel :: nat by simp
  have c: "\<forall>fuel. insert (12 + fuel) scenarioTree (newPineNode scenarioTree True 0 1000)
         (DataArray []) (Some partRange) scenarioProps
       = Some (Inr (True, halfKnownRoot, Some [], scenarioProps\<lparr>ip_continuedList := Some []\<rparr>))"
    unfolding f12 using part_root by blast
  have d: "summaryComplete halfKnownRoot \<and> list_all bucketHasData (vals emptiedRoot)
      \<and> \<not> hasData emptiedRoot \<and> \<not> summaryComplete emptiedRoot"
    by (simp add: halfKnownRoot_def emptiedRoot_def hasData_def)
  from a b c d remove_root show ?thesis by blast
qed

text \<open>
  C1, amended: with a summary type installed, a fresh node is
  summary-complete; an insertion that returns, on a node whose children are
  summary-complete, leaves the node summary-complete: it and every node
  beneath it hold a summary whenever all their buckets have data; when
  \<open>updateSummary\<close> recomputes the summary of a node that holds none (at a
  positive reverse depth, or without child nodes), the node has data
  afterwards if and only if every one of its buckets has data, the buckets
  being left as they are; and \<open>remove\<close> leaves the summary and the wrapper of
  the node it is called on as they were, whatever it does to the buckets, so
  that it keeps neither direction.
\<close>

theorem C1_summary_complete:
  assumes ctor: "SummaryCtor t = Some ops"
  shows "summaryComplete (newPineNode t isR s e)
    \<and> (bucketsComplete (vals n)
         \<and> insert fuel t n data chrRange props = Some (Inr (valid, n', data', props'))
       \<longrightarrow> summaryComplete n')
    \<and> (summary m = None \<and> (0 < reverseDepth m \<or> (\<forall>c. Branch c \<notin> set (vals m)))
       \<longrightarrow> (\<exists>m'. updateSummary t m None = Inr m' \<and> vals m' = vals m
                 \<and> (hasData m' \<longleftrightarrow> list_all bucketHasData (vals m))))
    \<and> (remove cmp r target exactMatch convertTo rprops warnings = (kept, r', rprops', warnings')
       \<longrightarrow> summary r' = summary r \<and> summaryChromRegion r' = summaryChromRegion r)"
proof (intro conjI impI)
  show "summaryComplete (newPineNode t isR s e)"
    by (simp add: newPineNode_def)
next
  assume "bucketsComplete (vals n)
         \<and> insert fuel t n data chrRange props = Some (Inr (valid, n', data', props'))"
  then show "summaryComplete n'"
    using insert_complete[OF ctor] by blast
next
  assume a: "summary m = None \<and> (0 < reverseDepth m \<or> (\<forall>c. Branch c \<notin> set (vals m)))"
  then have rd: "0 < reverseDepth m \<or> (\<forall>c. Branch c \<notin> set (vals m))" by simp
  note sc = summaryFromChildren_complete[OF rd, of ops "(nstart m, nend m)" "newSummary ops"]
  show "\<exists>m'. updateSummary t m None = Inr m' \<and> vals m' = vals m
                 \<and> (hasData m' \<longleftrightarrow> list_all bucketHasData (vals m))"
  proof (cases "list_all bucketHasData (vals m)")
    case True
    then obtain s' where
      "summaryFromChildren ops (reverseDepth m) (nstart m, nend m) (vals m) (newSummary ops)
         = Inr (Some s')"
      using sc by (auto simp: list_all_iff)
    then show ?thesis using a True
      by (simp add: updateSummary_def ctor setSummary_def hasData_def)
  next
    case False
    then have
      "summaryFromChildren ops (reverseDepth m) (nstart m, nend m) (vals m) (newSummary ops)
         = Inr None"
      using sc by (auto simp: list_all_iff)
    then show ?thesis using a False
      by (simp add: updateSummary_def ctor setSummary_def hasData_def)
  qed
next
  assume "remove cmp r target exactMatch convertTo rprops warnings
      = (kept, r', rprops', warnings')"
  from remove_summary[OF this] show "summary r' = summary r" by simp
next
  assume "remove cmp r target exactMatch convertTo rprops warnings
      = (kept, r', rprops', warnings')"
  from remove_summary[OF this] show "summaryChromRegion r' = summaryChromRegion r" by simp
qed

theorem C1_summary_complete_witness:
  "summaryComplete (newPineNode scenarioTree True 0 100000)
   \<and> summaryComplete scenarioRoot
   \<and> (\<exists>m'. updateSummary scenarioTree clearedNode None = Inr m'
         \<and> vals m' = vals clearedNode \<and> hasData m')
   \<and> summary emptiedRoot = summary halfKnownRoot"
proof -
  have ins: "bucketsComplete (vals (newPineNode scenarioTree True 0 100000))
      \<and> insert (Suc (Suc (Suc (Suc (Suc (Suc (Suc (Suc (Suc 0))))))))) scenarioTree
          (newPineNode scenarioTree True 0 100000) (DataArray [scenarioEntry]) None scenarioProps
        = Some (Inr (True, scenarioRoot, Some [], scenarioProps\<lparr>ip_continuedList := Some []\<rparr>))"
    using root_own[of 0] by (simp add: newPineNode_def)
  have rec: "summary clearedNode = None
      \<and> (0 < reverseDepth clearedNode \<or> (\<forall>c. Branch c \<notin> set (vals clearedNode)))"
    "list_all bucketHasData (vals clearedNode)"
    by (simp_all add: clearedNode_def)
  show ?thesis
    using C1_summary_complete[OF scenario_factors(3), where isR = True and s = 0
        and e = 100000 and n = "newPineNode scenarioTree True 0 100000"
        and fuel = "Suc (Suc (Suc (Suc (Suc (Suc (Suc (Suc (Suc 0))))))))"
        and data = "DataArray [scenarioEntry]" and chrRange = None and props = scenarioProps
        and valid = True and n' = scenarioRoot and data' = "Some []"
        and props' = "scenarioProps\<lparr>ip_continuedList := Some []\<rparr>" and m = clearedNode
        and cmp = "\<lambda>d n. True" and r = halfKnownRoot and target = removeTarget
        and exactMatch = False and convertTo = KnownEmpty and rprops = plainRemoveProps
        and warnings = "[]" and kept = False and r' = emptiedRoot
        and rprops' = plainRemoveProps and warnings' = "[]"]
      ins rec remove_root
    by blast
qed

end
